theory Spec2Isabelle
  imports Complex_Main "HOL-Library.Product_Lexorder" "HOL-Library.Multiset" "HOL-Library.Sublist"
begin

section \<open>Run-scoped logging and log retention (DynamicPrompt/logger.py, StaticPrompt/logger.py)\<close>

text \<open>
  The two logger modules of the repository are embedded side by side. The global variant
  (DynamicPrompt) purges every \<^verbatim>\<open>*.log\<close> file of the log directory and orders files by the
  timestamp in their names; the scoped variant (StaticPrompt) purges
  \<^verbatim>\<open>{module_name}_*.log\<close> and orders files by modification time.

  What Python's library does for the two modules is written out as far as the modules
  depend on it: \<^verbatim>\<open>os.path.join\<close>, \<^verbatim>\<open>os.path.basename\<close>, the regular expression of the
  file-name timestamp, \<^verbatim>\<open>strptime\<close>/\<^verbatim>\<open>strftime\<close> for the one format used, \<^verbatim>\<open>glob.glob\<close> for
  patterns built from \<^verbatim>\<open>*\<close>, \<^verbatim>\<open>?\<close> and literal characters, the stable \<^verbatim>\<open>list.sort\<close>, list
  slicing, \<^verbatim>\<open>os.remove\<close>, and the handler objects of \<^verbatim>\<open>logging\<close>.

  Three parts of the library are written out for the ordinary case only, and every property
  of a retention pass that depends on one of them names that case as a hypothesis:
  \<^item> \<^verbatim>\<open>fnmatch\<close> reads \<^verbatim>\<open>[...]\<close> in a pattern as a character class, and the pattern of the
    scoped pass starts with the module name; the model compares a bracket as a plain
    character. The hypothesis is \<open>plain_name\<close>: the module name has no bracket (and no
    wildcard, slash or leading dot).
  \<^item> \<^verbatim>\<open>glob.glob\<close> also expands wildcards and brackets in the directory part of its argument
    and lists the directories they match; the model lists the one directory the pass was
    called with. The hypothesis is \<open>plain_dir\<close>: the directory name has none of
    \<^verbatim>\<open>*\<close>, \<^verbatim>\<open>?\<close>, \<^verbatim>\<open>[\<close>.
  \<^item> \<^verbatim>\<open>\d\<close> and \<^verbatim>\<open>strptime\<close> accept the decimal digits of every script; the model knows the
    digits \<^verbatim>\<open>0\<close> to \<^verbatim>\<open>9\<close>. The hypothesis is \<open>ascii_names\<close>: the names of the files in the
    directory are ASCII, where the two agree.
\<close>

subsection \<open>Dates and times\<close>

text \<open>
  A naive \<^verbatim>\<open>datetime\<close> is its seven fields (year, month, day, hour, minute, second,
  microsecond). Python compares two naive datetimes field by field in this order, which is
  the lexicographic order of the tuple. A POSIX timestamp (the float returned by
  \<^verbatim>\<open>os.path.getmtime\<close> and \<^verbatim>\<open>time.time\<close>) is the rational number it denotes.
  The local time of a timestamp depends on the time zone of the machine; it is a parameter
  \<open>localtime\<close> of every function that reads the clock or converts a timestamp.
\<close>

type_synonym datetime = "nat \<times> nat \<times> nat \<times> nat \<times> nat \<times> nat \<times> nat"

type_synonym posix_time = rat

definition digits :: string where
  "digits = ''0123456789''"

definition is_digit :: "char \<Rightarrow> bool" where
  "is_digit c = (c \<in> set digits)"

definition digit_val :: "char \<Rightarrow> nat" where
  "digit_val c = length (takeWhile (\<lambda>d. d \<noteq> c) digits)"

definition digit_char :: "nat \<Rightarrow> char" where
  "digit_char d = digits ! (d mod 10)"

fun num :: "string \<Rightarrow> nat" where
  "num s = foldl (\<lambda>n c. 10 * n + digit_val c) 0 s"

definition is_leap :: "nat \<Rightarrow> bool" where
  "is_leap y = (y mod 4 = 0 \<and> (y mod 100 \<noteq> 0 \<or> y mod 400 = 0))"

definition days_in_month :: "nat \<Rightarrow> nat \<Rightarrow> nat" where
  "days_in_month y m =
     (if m = 2 then (if is_leap y then 29 else 28)
      else if m = 4 \<or> m = 6 \<or> m = 9 \<or> m = 11 then 30 else 31)"

text \<open>The arguments \<^verbatim>\<open>datetime(...)\<close> accepts; any other raise \<^verbatim>\<open>ValueError\<close>.\<close>

definition valid_datetime :: "datetime \<Rightarrow> bool" where
  "valid_datetime dt =
     (case dt of (y, mo, d, h, mi, s, us) \<Rightarrow>
        1 \<le> y \<and> y \<le> 9999 \<and> 1 \<le> mo \<and> mo \<le> 12 \<and> 1 \<le> d \<and> d \<le> days_in_month y mo \<and>
        h \<le> 23 \<and> mi \<le> 59 \<and> s \<le> 59 \<and> us \<le> 999999)"

subsection \<open>The file-name timestamp\<close>

text \<open>
  \<^verbatim>\<open>_TIMESTAMP_RE = re.compile(r"_(\d{4}-\d{2}-\d{2}_\d{2}-\d{2}-\d{2})\.log$")\<close>.
  The expression is a fixed sequence of 24 atoms, each a digit class or a literal
  character, anchored by \<^verbatim>\<open>$\<close>. Among ASCII characters \<^verbatim>\<open>\d\<close> is one of \<^verbatim>\<open>0\<close> to \<^verbatim>\<open>9\<close>, which is
  what \<open>is_digit\<close> tests. In a Python \<^verbatim>\<open>str\<close> it is also a decimal digit of any other script
  (and \<^verbatim>\<open>strptime\<close> reads those as numbers); a name with such a character is outside
  \<open>ascii_names\<close>.
\<close>

datatype atom = Digit | Lit char

fun match_atoms :: "atom list \<Rightarrow> string \<Rightarrow> bool" where
  "match_atoms [] [] = True"
| "match_atoms (Digit # as) (c # cs) = (is_digit c \<and> match_atoms as cs)"
| "match_atoms (Lit l # as) (c # cs) = (l = c \<and> match_atoms as cs)"
| "match_atoms _ _ = False"

definition TIMESTAMP_FMT :: "atom list" where
  "TIMESTAMP_FMT =
     [Digit, Digit, Digit, Digit, Lit CHR ''-'', Digit, Digit, Lit CHR ''-'', Digit, Digit,
      Lit CHR ''_'', Digit, Digit, Lit CHR ''-'', Digit, Digit, Lit CHR ''-'', Digit, Digit]"

definition TIMESTAMP_RE :: "atom list" where
  "TIMESTAMP_RE =
     Lit CHR ''_'' # TIMESTAMP_FMT @ [Lit CHR ''.'', Lit CHR ''l'', Lit CHR ''o'', Lit CHR ''g'']"

text \<open>
  \<^verbatim>\<open>_TIMESTAMP_RE.search(base)\<close>, returning group 1. Without \<^verbatim>\<open>re.MULTILINE\<close>, \<^verbatim>\<open>$\<close> matches
  at the end of the string and also just before a newline that ends the string. The
  expression has a fixed length and ends in \<^verbatim>\<open>g\<close>, so the only possible match is the last 24
  characters of the string, after dropping one final newline.
\<close>

definition re_search :: "string \<Rightarrow> string option" where
  "re_search base =
     (let s = (if base \<noteq> [] \<and> last base = CHR 0x0A then butlast base else base);
          tail = drop (length s - 24) s
      in if match_atoms TIMESTAMP_RE tail then Some (take 19 (drop 1 tail)) else None)"

text \<open>
  \<^verbatim>\<open>datetime.strptime(ts, "%Y-%m-%d_%H-%M-%S")\<close>: \<open>None\<close> stands for the \<^verbatim>\<open>ValueError\<close>
  raised when the text does not have the format or the fields are no calendar date and
  time of day (year 0, month 13, 30 February, hour 24, second 60).
\<close>

definition strptime :: "string \<Rightarrow> datetime option" where
  "strptime ts =
     (if \<not> match_atoms TIMESTAMP_FMT ts then None
      else
        let dt = (num (take 4 ts), num (take 2 (drop 5 ts)), num (take 2 (drop 8 ts)),
                  num (take 2 (drop 11 ts)), num (take 2 (drop 14 ts)),
                  num (take 2 (drop 17 ts)), 0)
        in if valid_datetime dt then Some dt else None)"

text \<open>
  \<^verbatim>\<open>dt.strftime("%Y-%m-%d_%H-%M-%S")\<close>. The year is written with four digits, which is what
  every platform prints for the years 1000 to 9999.
\<close>

definition pad2 :: "nat \<Rightarrow> string" where
  "pad2 n = [digit_char (n div 10), digit_char n]"

definition pad4 :: "nat \<Rightarrow> string" where
  "pad4 n = [digit_char (n div 1000), digit_char (n div 100), digit_char (n div 10), digit_char n]"

definition strftime :: "datetime \<Rightarrow> string" where
  "strftime dt =
     (case dt of (y, mo, d, h, mi, s, us) \<Rightarrow>
        pad4 y @ ''-'' @ pad2 mo @ ''-'' @ pad2 d @ ''_'' @ pad2 h @ ''-'' @ pad2 mi @ ''-'' @ pad2 s)"

subsection \<open>Paths\<close>

text \<open>\<^verbatim>\<open>os.path.join\<close> and \<^verbatim>\<open>os.path.basename\<close> of \<^verbatim>\<open>posixpath\<close>.\<close>

definition path_join :: "string \<Rightarrow> string \<Rightarrow> string" where
  "path_join a b =
     (if b \<noteq> [] \<and> hd b = CHR ''/'' then b
      else if a = [] \<or> last a = CHR ''/'' then a @ b
      else a @ ''/'' @ b)"

definition basename :: "string \<Rightarrow> string" where
  "basename p = rev (takeWhile (\<lambda>c. c \<noteq> CHR ''/'') (rev p))"

definition parse_timestamp_from_filename :: "string \<Rightarrow> datetime option" where
  "parse_timestamp_from_filename path =
     (let base = basename path
      in case re_search base of
           None \<Rightarrow> None
         | Some ts \<Rightarrow> strptime ts)"

subsection \<open>The log directory\<close>

text \<open>
  The state the two modules act on is the content of the one log directory they are called
  with: its files in the order the directory listing returns them, each with its name, its
  modification time (\<open>None\<close> when \<^verbatim>\<open>os.path.getmtime\<close> raises for it) and whether
  \<^verbatim>\<open>os.remove\<close> succeeds on it. The directory holds regular files only: a path below a
  subdirectory names no file. \<open>dir_present\<close> and \<open>mkdir_ok\<close> decide \<^verbatim>\<open>os.makedirs\<close>,
  \<open>open_ok\<close> decides whether a file of the directory can be opened for appending.
\<close>

datatype error = OSError | ValueError

record dirent =
  fname :: string
  mtime :: "posix_time option"
  removable :: bool

record directory =
  files :: "dirent list"
  dir_present :: bool
  mkdir_ok :: bool
  open_ok :: bool

definition lookup :: "directory \<Rightarrow> string \<Rightarrow> dirent option" where
  "lookup fs path = find (\<lambda>f. fname f = basename path) (files fs)"

definition getmtime :: "directory \<Rightarrow> string \<Rightarrow> error + posix_time" where
  "getmtime fs path =
     (case lookup fs path of
        None \<Rightarrow> Inl OSError
      | Some f \<Rightarrow> (case mtime f of None \<Rightarrow> Inl OSError | Some m \<Rightarrow> Inr m))"

definition os_remove :: "directory \<Rightarrow> string \<Rightarrow> (error + unit) \<times> directory" where
  "os_remove fs path =
     (case lookup fs path of
        None \<Rightarrow> (Inl OSError, fs)
      | Some f \<Rightarrow>
          if removable f
          then (Inr (), fs\<lparr>files := filter (\<lambda>g. fname g \<noteq> basename path) (files fs)\<rparr>)
          else (Inl OSError, fs))"

subsection \<open>Globbing\<close>

text \<open>
  \<^verbatim>\<open>fnmatch(name, pat)\<close> for patterns of \<^verbatim>\<open>*\<close>, \<^verbatim>\<open>?\<close> and literal characters, case-sensitive as
  on POSIX. Character classes \<^verbatim>\<open>[...]\<close> are not interpreted, so this is \<^verbatim>\<open>fnmatch\<close> for
  patterns without a bracket: the patterns of the two modules contain one only when the
  module name does, which \<open>plain_name\<close> excludes.
\<close>

fun fnmatch :: "string \<Rightarrow> string \<Rightarrow> bool" where
  "fnmatch [] [] = True"
| "fnmatch (c # n) [] = False"
| "fnmatch [] (p # ps) = (p = CHR ''*'' \<and> fnmatch [] ps)"
| "fnmatch (c # n) (p # ps) =
     (if p = CHR ''*'' then fnmatch (c # n) ps \<or> fnmatch n (p # ps)
      else if p = CHR ''?'' then fnmatch n ps
      else p = c \<and> fnmatch n ps)"

definition ishidden :: "string \<Rightarrow> bool" where
  "ishidden s = (s \<noteq> [] \<and> hd s = CHR ''.'')"

text \<open>
  \<^verbatim>\<open>glob.glob(os.path.join(log_dir, pat))\<close>: the names of the directory that match \<open>pat\<close>,
  in listing order, each joined to \<open>log_dir\<close>. A name that starts with a dot is matched
  only by a pattern that starts with a dot. A pattern with a slash looks into a
  subdirectory, where there is no file. \<open>log_dir\<close> is taken as the name of the one
  directory \<open>fs\<close>, which is what \<^verbatim>\<open>glob.glob\<close> does with a directory part that has no
  wildcard and no bracket (\<open>plain_dir\<close>).
\<close>

definition glob_glob :: "directory \<Rightarrow> string \<Rightarrow> string \<Rightarrow> string list" where
  "glob_glob fs log_dir pat =
     (if \<not> dir_present fs \<or> CHR ''/'' \<in> set pat then []
      else map (path_join log_dir)
             (filter (\<lambda>n. fnmatch n pat \<and> (ishidden pat \<or> \<not> ishidden n)) (map fname (files fs))))"

subsection \<open>Slices and the deletion loop\<close>

text \<open>Python's \<^verbatim>\<open>xs[:stop]\<close>: a negative \<open>stop\<close> counts from the end, and both are clamped.\<close>

definition slice_to :: "'a list \<Rightarrow> int \<Rightarrow> 'a list" where
  "slice_to xs stop =
     (if stop < 0 then take (nat (int (length xs) + stop)) xs else take (nat stop) xs)"

text \<open>
  The loop \<^verbatim>\<open>for path in to_delete: try: os.remove(path); deleted.append(path) except
  Exception: pass\<close>, with the list \<open>deleted\<close> and the directory threaded through.
\<close>

fun remove_each :: "string list \<Rightarrow> string list \<Rightarrow> directory \<Rightarrow> string list \<times> directory" where
  "remove_each [] deleted fs = (deleted, fs)"
| "remove_each (path # rest) deleted fs =
     (case os_remove fs path of
        (Inr _, fs') \<Rightarrow> remove_each rest (deleted @ [path]) fs'
      | (Inl _, fs') \<Rightarrow> remove_each rest deleted fs')"

subsection \<open>The global retention pass (DynamicPrompt/logger.py)\<close>

text \<open>
  \<^verbatim>\<open>datetime.fromtimestamp(t)\<close> raises when the local time of \<open>t\<close> is not a \<^verbatim>\<open>datetime\<close>: the
  year lies outside 1 to 9999, or the platform cannot convert \<open>t\<close>, in which case
  \<open>localtime t\<close> is a tuple that is no date and time.
\<close>

definition fromtimestamp :: "(posix_time \<Rightarrow> datetime) \<Rightarrow> posix_time \<Rightarrow> error + datetime" where
  "fromtimestamp localtime t =
     (if valid_datetime (localtime t) then Inr (localtime t) else Inl ValueError)"

text \<open>
  The sort key of one globbed path: the body of the loop that fills \<^verbatim>\<open>file_infos\<close>. The
  \<^verbatim>\<open>try\<close> holds both \<^verbatim>\<open>os.path.getmtime\<close> and the conversion of its result, so either
  failure leads to the handler. The handler converts timestamp 0, whose local time is
  \<open>localtime 0\<close>.
\<close>

definition sort_key_of :: "(posix_time \<Rightarrow> datetime) \<Rightarrow> directory \<Rightarrow> string \<Rightarrow> datetime" where
  "sort_key_of localtime fs p =
     (case parse_timestamp_from_filename p of
        Some parsed_ts \<Rightarrow> parsed_ts
      | None \<Rightarrow>
          (case (case getmtime fs p of
                   Inl e \<Rightarrow> Inl e
                 | Inr m \<Rightarrow> fromtimestamp localtime m) of
             Inr ts \<Rightarrow> ts
           | Inl _ \<Rightarrow> localtime 0))"

definition purge_old_logs_global ::
  "(posix_time \<Rightarrow> datetime) \<Rightarrow> string \<Rightarrow> int \<Rightarrow> directory \<Rightarrow> string list \<times> directory" where
  "purge_old_logs_global localtime log_dir keep fs =
     (let files = glob_glob fs log_dir ''*.log''
      in if files = [] then ([], fs)
         else
           let file_infos = map (\<lambda>p. (p, sort_key_of localtime fs p)) files;
               file_infos = sort_key snd file_infos;
               total = int (length file_infos)
           in if total > keep
              then
                let num_to_delete = total - keep;
                    to_delete = slice_to file_infos num_to_delete
                in remove_each (map fst to_delete) [] fs
              else ([], fs))"

subsection \<open>The scoped retention pass (StaticPrompt/logger.py)\<close>

text \<open>
  \<^verbatim>\<open>files.sort(key=lambda p: os.path.getmtime(p))\<close> computes every key before it sorts; the
  first \<^verbatim>\<open>getmtime\<close> that raises ends the pass with that exception, nothing deleted.
\<close>

fun mtime_keys :: "directory \<Rightarrow> string list \<Rightarrow> error + (string \<times> posix_time) list" where
  "mtime_keys fs [] = Inr []"
| "mtime_keys fs (p # ps) =
     (case getmtime fs p of
        Inl e \<Rightarrow> Inl e
      | Inr m \<Rightarrow> (case mtime_keys fs ps of Inl e \<Rightarrow> Inl e | Inr kps \<Rightarrow> Inr ((p, m) # kps)))"

definition purge_old_timestamped_logs ::
  "string \<Rightarrow> string \<Rightarrow> int \<Rightarrow> directory \<Rightarrow> (error + string list) \<times> directory" where
  "purge_old_timestamped_logs module_name log_dir keep fs =
     (let files = glob_glob fs log_dir (module_name @ ''_*.log'')
      in if files = [] then (Inr [], fs)
         else
           case mtime_keys fs files of
             Inl e \<Rightarrow> (Inl e, fs)
           | Inr keyed \<Rightarrow>
               let files = map fst (sort_key snd keyed)
               in if int (length files) > keep
                  then
                    let to_delete = slice_to files (- keep);
                        (deleted, fs') = remove_each to_delete [] fs
                    in (Inr deleted, fs')
                  else (Inr [], fs))"

subsection \<open>Loggers, handlers and the process state\<close>

text \<open>
  A handler is its destination, its minimum severity and its format string. The process
  state is the log directory, the registry of \<^verbatim>\<open>logging.getLogger\<close> (a logger that was never
  asked for has level \<^verbatim>\<open>NOTSET\<close> and no handlers) and the warning filters. The records a
  logger writes afterwards are not part of the state.
\<close>

datatype sink =
    TimedRotatingFile (filename: string) (rotate_when: string) (backupCount: int)
      (encoding: string) (utc: bool)
  | Stream

record handler =
  target :: sink
  h_level :: int
  formatter :: "string option"

record logger =
  lg_level :: int
  handlers :: "handler list"

record state =
  fs :: directory
  loggers :: "string \<Rightarrow> logger"
  warning_filters :: "(string \<times> string) list"

definition NOTSET :: int where "NOTSET = 0"
definition DEBUG :: int where "DEBUG = 10"
definition INFO :: int where "INFO = 20"
definition WARNING :: int where "WARNING = 30"

definition set_logger_level :: "string \<Rightarrow> int \<Rightarrow> state \<Rightarrow> state" where
  "set_logger_level nm lv s = s\<lparr>loggers := (loggers s)(nm := (loggers s nm)\<lparr>lg_level := lv\<rparr>)\<rparr>"

definition addHandler :: "string \<Rightarrow> handler \<Rightarrow> state \<Rightarrow> state" where
  "addHandler nm h s =
     (if h \<in> set (handlers (loggers s nm)) then s
      else s\<lparr>loggers := (loggers s)(nm := (loggers s nm)\<lparr>handlers := handlers (loggers s nm) @ [h]\<rparr>)\<rparr>)"

text \<open>\<^verbatim>\<open>warnings.filterwarnings(action, message=...)\<close> puts the filter first, once.\<close>

definition filterwarnings :: "string \<Rightarrow> string \<Rightarrow> state \<Rightarrow> state" where
  "filterwarnings action message s =
     s\<lparr>warning_filters := (action, message) # removeAll (action, message) (warning_filters s)\<rparr>"

text \<open>\<^verbatim>\<open>os.makedirs(log_dir, exist_ok=True)\<close>.\<close>

definition makedirs :: "directory \<Rightarrow> (error + unit) \<times> directory" where
  "makedirs d =
     (if dir_present d then (Inr (), d)
      else if mkdir_ok d then (Inr (), d\<lparr>dir_present := True\<rparr>)
      else (Inl OSError, d))"

text \<open>
  \<^verbatim>\<open>open(path, "a", encoding="utf-8")\<close> at time \<open>now\<close>: an existing file is left as it is, a
  missing one is created empty and listed last. Only a path directly inside the log
  directory can be opened.
\<close>

definition open_append :: "directory \<Rightarrow> string \<Rightarrow> string \<Rightarrow> posix_time \<Rightarrow> (error + unit) \<times> directory" where
  "open_append d log_dir path now =
     (if \<not> dir_present d \<or> \<not> open_ok d \<or> path \<noteq> path_join log_dir (basename path)
      then (Inl OSError, d)
      else
        case lookup d path of
          Some f \<Rightarrow> (Inr (), d)
        | None \<Rightarrow>
            (Inr (), d\<lparr>files := files d @ [\<lparr>fname = basename path, mtime = Some now, removable = True\<rparr>]\<rparr>))"

text \<open>
  \<^verbatim>\<open>TimedRotatingFileHandler(filename, when, backupCount, encoding, utc)\<close>: the constructor
  opens the file first and then checks \<^verbatim>\<open>when.upper()\<close>, raising \<^verbatim>\<open>ValueError\<close> for an
  interval it does not know. The new handler has level \<^verbatim>\<open>NOTSET\<close> and no formatter.
\<close>

definition upper :: "string \<Rightarrow> string" where
  "upper s =
     map (\<lambda>c. case map_of (zip ''abcdefghijklmnopqrstuvwxyz'' ''ABCDEFGHIJKLMNOPQRSTUVWXYZ'') c of
                 None \<Rightarrow> c | Some u \<Rightarrow> u) s"

definition valid_when :: "string \<Rightarrow> bool" where
  "valid_when w =
     (let u = upper w
      in u \<in> set [''S'', ''M'', ''H'', ''D'', ''MIDNIGHT''] \<or>
         (length u = 2 \<and> hd u = CHR ''W'' \<and> u ! 1 \<in> set ''0123456''))"

definition TimedRotatingFileHandler ::
  "directory \<Rightarrow> string \<Rightarrow> posix_time \<Rightarrow> string \<Rightarrow> string \<Rightarrow> int \<Rightarrow> string \<Rightarrow> bool \<Rightarrow>
     (error + handler) \<times> directory" where
  "TimedRotatingFileHandler d log_dir now fn wh bc enc u =
     (case open_append d log_dir fn now of
        (Inl e, d') \<Rightarrow> (Inl e, d')
      | (Inr _, d') \<Rightarrow>
          if valid_when wh
          then (Inr \<lparr>target = TimedRotatingFile fn wh bc enc u, h_level = NOTSET, formatter = None\<rparr>, d')
          else (Inl ValueError, d'))"

definition StreamHandler :: handler where
  "StreamHandler = \<lparr>target = Stream, h_level = NOTSET, formatter = None\<rparr>"

definition LOG_FORMAT :: string where
  "LOG_FORMAT = ''%(asctime)s - %(levelname)s - %(name)s - %(message)s''"

definition noisy_loggers :: "string list" where
  "noisy_loggers = [''urllib3'', ''botocore'', ''boto3'', ''requests'', ''streamlit'']"

text \<open>What both \<^verbatim>\<open>setup_logger\<close> functions do between attaching the handlers and purging.\<close>

definition quieten :: "state \<Rightarrow> state" where
  "quieten s =
     filterwarnings ''ignore'' ''Session state does not function when running a script without.*''
       (filterwarnings ''ignore'' ''.*missing ScriptRunContext.*''
          (foldl (\<lambda>s noisy_logger. set_logger_level noisy_logger WARNING s) s noisy_loggers))"

definition attach_handlers :: "string \<Rightarrow> int \<Rightarrow> handler \<Rightarrow> state \<Rightarrow> state" where
  "attach_handlers module_name level file_handler s =
     (let formatter = LOG_FORMAT;
          file_handler = file_handler\<lparr>h_level := level\<rparr>;
          file_handler = file_handler\<lparr>formatter := Some formatter\<rparr>;
          s = addHandler module_name file_handler s;
          console_handler = StreamHandler;
          console_handler = console_handler\<lparr>h_level := INFO\<rparr>;
          console_handler = console_handler\<lparr>formatter := Some formatter\<rparr>
      in addHandler module_name console_handler s)"

subsection \<open>\<^verbatim>\<open>setup_logger\<close> of DynamicPrompt/logger.py\<close>

text \<open>
  \<open>now\<close> is the clock at the call, and \<^verbatim>\<open>datetime.now()\<close> its local time. The result is the
  exception raised or the name of the logger returned, with the state the call leaves
  behind.
\<close>

definition DynamicPrompt_setup_logger ::
  "(posix_time \<Rightarrow> datetime) \<Rightarrow> posix_time \<Rightarrow> string \<Rightarrow> string \<Rightarrow> int \<Rightarrow> string \<Rightarrow> int \<Rightarrow> int \<Rightarrow>
     state \<Rightarrow> (error + string) \<times> state" where
  "DynamicPrompt_setup_logger localtime now module_name log_dir level when backup_count keep s =
     (case makedirs (fs s) of
        (Inl e, d) \<Rightarrow> (Inl e, s\<lparr>fs := d\<rparr>)
      | (Inr _, d) \<Rightarrow>
          let timestamp = strftime (localtime now);
              log_filename = path_join log_dir (module_name @ ''_'' @ timestamp @ ''.log'');
              d = snd (open_append d log_dir log_filename now);
              s = set_logger_level module_name level (s\<lparr>fs := d\<rparr>)
          in if handlers (loggers s module_name) \<noteq> []
             then
               let (deleted, d) = purge_old_logs_global localtime log_dir keep (fs s)
               in (Inr module_name, s\<lparr>fs := d\<rparr>)
             else
               case TimedRotatingFileHandler (fs s) log_dir now log_filename when backup_count
                      ''utf-8'' False of
                 (Inl e, d) \<Rightarrow> (Inl e, s\<lparr>fs := d\<rparr>)
               | (Inr file_handler, d) \<Rightarrow>
                   let s = attach_handlers module_name level file_handler (s\<lparr>fs := d\<rparr>);
                       s = quieten s;
                       (deleted, d) = purge_old_logs_global localtime log_dir keep (fs s)
                   in (Inr module_name, s\<lparr>fs := d\<rparr>))"

subsection \<open>\<^verbatim>\<open>setup_logger\<close> of StaticPrompt/logger.py\<close>

definition StaticPrompt_setup_logger ::
  "(posix_time \<Rightarrow> datetime) \<Rightarrow> posix_time \<Rightarrow> string \<Rightarrow> string \<Rightarrow> int \<Rightarrow> string \<Rightarrow> int \<Rightarrow> int \<Rightarrow>
     state \<Rightarrow> (error + string) \<times> state" where
  "StaticPrompt_setup_logger localtime now module_name log_dir level when backup_count keep s =
     (case makedirs (fs s) of
        (Inl e, d) \<Rightarrow> (Inl e, s\<lparr>fs := d\<rparr>)
      | (Inr _, d) \<Rightarrow>
          let timestamp = strftime (localtime now);
              log_filename = path_join log_dir (module_name @ ''_'' @ timestamp @ ''.log'');
              s = set_logger_level module_name level (s\<lparr>fs := d\<rparr>)
          in if handlers (loggers s module_name) \<noteq> []
             then
               case purge_old_timestamped_logs module_name log_dir keep (fs s) of
                 (Inl e, d) \<Rightarrow> (Inl e, s\<lparr>fs := d\<rparr>)
               | (Inr deleted, d) \<Rightarrow> (Inr module_name, s\<lparr>fs := d\<rparr>)
             else
               case TimedRotatingFileHandler (fs s) log_dir now log_filename when backup_count
                      ''utf-8'' False of
                 (Inl e, d) \<Rightarrow> (Inl e, s\<lparr>fs := d\<rparr>)
               | (Inr file_handler, d) \<Rightarrow>
                   let s = attach_handlers module_name level file_handler (s\<lparr>fs := d\<rparr>);
                       s = quieten s
                   in case purge_old_timestamped_logs module_name log_dir keep (fs s) of
                        (Inl e, d) \<Rightarrow> (Inl e, s\<lparr>fs := d\<rparr>)
                      | (Inr deleted, d) \<Rightarrow> (Inr module_name, s\<lparr>fs := d\<rparr>))"

text \<open>
  The line a handler writes for a record: \<^verbatim>\<open>fmt % record.__dict__\<close> for a format of text,
  \<^verbatim>\<open>%%\<close> and \<^verbatim>\<open>%(key)s\<close>. \<open>None\<close> stands for the exception of a malformed format or a missing
  key.
\<close>

record log_record =
  asctime :: string
  levelname :: string
  name :: string
  message :: string

definition record_dict :: "log_record \<Rightarrow> string \<Rightarrow> string option" where
  "record_dict r =
     map_of [(''asctime'', asctime r), (''levelname'', levelname r), (''name'', name r),
             (''message'', message r)]"

datatype fmode = Plain | Percent | Key string | Conv string

fun percent_format :: "(string \<Rightarrow> string option) \<Rightarrow> fmode \<Rightarrow> string \<Rightarrow> string option" where
  "percent_format d Plain [] = Some []"
| "percent_format d Plain (c # cs) =
     (if c = CHR ''%'' then percent_format d Percent cs
      else map_option ((#) c) (percent_format d Plain cs))"
| "percent_format d Percent (c # cs) =
     (if c = CHR ''('' then percent_format d (Key []) cs
      else if c = CHR ''%'' then map_option ((#) c) (percent_format d Plain cs)
      else None)"
| "percent_format d (Key k) (c # cs) =
     (if c = CHR '')'' then percent_format d (Conv k) cs else percent_format d (Key (k @ [c])) cs)"
| "percent_format d (Conv k) (c # cs) =
     (if c = CHR ''s''
      then (case d k of None \<Rightarrow> None | Some v \<Rightarrow> map_option ((@) v) (percent_format d Plain cs))
      else None)"
| "percent_format d m [] = None"

definition format_record :: "handler \<Rightarrow> log_record \<Rightarrow> string option" where
  "format_record h r =
     (case formatter h of
        None \<Rightarrow> Some (message r)
      | Some fmt \<Rightarrow> percent_format (record_dict r) Plain fmt)"

subsection \<open>Notions used to state the properties\<close>

text \<open>
  A well-formed directory: no two files share a name, and no name contains a slash.
\<close>

definition wf_dir :: "directory \<Rightarrow> bool" where
  "wf_dir d = (distinct (map fname (files d)) \<and> (\<forall>f\<in>set (files d). CHR ''/'' \<notin> set (fname f)))"

text \<open>\<^verbatim>\<open>os.remove(p)\<close> succeeds in \<open>d\<close>: the file is there and can be removed.\<close>

definition can_remove :: "directory \<Rightarrow> string \<Rightarrow> bool" where
  "can_remove d p = (case lookup d p of Some f \<Rightarrow> removable f | None \<Rightarrow> False)"

definition all_removable :: "directory \<Rightarrow> bool" where
  "all_removable d = (\<forall>f\<in>set (files d). removable f)"

text \<open>
  A module name that is matched as it is written: no wildcard, no bracket (which \<^verbatim>\<open>fnmatch\<close>
  would read as a character class), no slash, and no leading dot. A directory name that
  \<^verbatim>\<open>glob.glob\<close> takes as it is written: no wildcard and no bracket, and no doubled slash at
  its end (which \<^verbatim>\<open>glob.glob\<close> drops from the paths it returns). A directory whose file names
  are ASCII.
\<close>

definition plain_name :: "string \<Rightarrow> bool" where
  "plain_name m =
     (CHR ''*'' \<notin> set m \<and> CHR ''?'' \<notin> set m \<and> CHR ''['' \<notin> set m \<and> CHR ''/'' \<notin> set m \<and>
      \<not> ishidden m)"

definition plain_dir :: "string \<Rightarrow> bool" where
  "plain_dir log_dir =
     (CHR ''*'' \<notin> set log_dir \<and> CHR ''?'' \<notin> set log_dir \<and> CHR ''['' \<notin> set log_dir \<and>
      \<not> suffix ''//'' log_dir)"

definition ascii_name :: "string \<Rightarrow> bool" where
  "ascii_name n = list_all (\<lambda>c. of_char c < (128::nat)) n"

definition ascii_names :: "directory \<Rightarrow> bool" where
  "ascii_names d = list_all (\<lambda>f. ascii_name (fname f)) (files d)"

text \<open>The names \<^verbatim>\<open>glob.glob\<close> selects, before they are joined to the directory.\<close>

definition glob_names :: "directory \<Rightarrow> string \<Rightarrow> string list" where
  "glob_names d pat =
     (if \<not> dir_present d \<or> CHR ''/'' \<in> set pat then []
      else filter (\<lambda>n. fnmatch n pat \<and> (ishidden pat \<or> \<not> ishidden n)) (map fname (files d)))"

text \<open>
  The modification time of a path when it is readable, and the list \<^verbatim>\<open>to_delete\<close> each pass
  builds: the paths it will try to remove, in this order.
\<close>

definition readable :: "directory \<Rightarrow> string \<Rightarrow> bool" where
  "readable d p = (case getmtime d p of Inr m \<Rightarrow> True | Inl e \<Rightarrow> False)"

definition the_mtime :: "directory \<Rightarrow> string \<Rightarrow> posix_time" where
  "the_mtime d p = (case getmtime d p of Inr m \<Rightarrow> m | Inl e \<Rightarrow> 0)"

definition global_candidates ::
  "(posix_time \<Rightarrow> datetime) \<Rightarrow> string \<Rightarrow> int \<Rightarrow> directory \<Rightarrow> string list" where
  "global_candidates localtime log_dir keep d =
     (let files = sort_key (sort_key_of localtime d) (glob_glob d log_dir ''*.log'')
      in if int (length files) > keep then slice_to files (int (length files) - keep) else [])"

definition scoped_candidates :: "string \<Rightarrow> string \<Rightarrow> int \<Rightarrow> directory \<Rightarrow> string list" where
  "scoped_candidates module_name log_dir keep d =
     (let files = sort_key (the_mtime d) (glob_glob d log_dir (module_name @ ''_*.log''))
      in if int (length files) > keep then slice_to files (- keep) else [])"

subsection \<open>Example directories\<close>

text \<open>
  A clock for the examples: the POSIX times 0 to 59 fall into the first minute of 1970, and
  a later time has no local time there (second 60 is no time of day), so it cannot be
  converted.
\<close>

definition utc_1970 :: "posix_time \<Rightarrow> datetime" where
  "utc_1970 t = (1970, 1, 1, 0, 0, nat \<lfloor>t\<rfloor>, 0)"

definition present :: "dirent list \<Rightarrow> directory" where
  "present fl = \<lparr>files = fl, dir_present = True, mkdir_ok = True, open_ok = True\<rparr>"

definition locked_dir :: directory where
  "locked_dir = present
     [\<lparr>fname = ''svc_a.log'', mtime = Some 1, removable = True\<rparr>,
      \<lparr>fname = ''svc_b.log'', mtime = Some 2, removable = False\<rparr>,
      \<lparr>fname = ''svc_c.log'', mtime = Some 3, removable = True\<rparr>]"

definition mixed_dir :: directory where
  "mixed_dir = present
     [\<lparr>fname = ''svc_2024-01-02_00-00-00.log'', mtime = Some 2, removable = True\<rparr>,
      \<lparr>fname = ''other_2024-01-01_00-00-00.log'', mtime = Some 1, removable = True\<rparr>,
      \<lparr>fname = ''svc_2024-01-03_00-00-00.log'', mtime = Some 3, removable = True\<rparr>,
      \<lparr>fname = ''notes.txt'', mtime = Some 0, removable = True\<rparr>]"

text \<open>
  \<open>deleted\<close> is a cut of the oldest of \<open>fl\<close> under \<open>key\<close>: it has no file twice, it is part
  of \<open>fl\<close>, and each of its files is strictly older than every file of \<open>fl\<close> outside it.
\<close>

definition oldest_cut :: "('a \<Rightarrow> 'k::linorder) \<Rightarrow> 'a list \<Rightarrow> 'a list \<Rightarrow> bool" where
  "oldest_cut key fl deleted =
     (distinct deleted \<and> set deleted \<subseteq> set fl \<and>
      (\<forall>x\<in>set deleted. \<forall>y\<in>set fl - set deleted. key x < key y))"

definition all_parseable :: "string list \<Rightarrow> bool" where
  "all_parseable ps = list_all (\<lambda>p. parse_timestamp_from_filename p \<noteq> None) ps"

definition parsed :: "string \<Rightarrow> datetime" where
  "parsed p = the (parse_timestamp_from_filename p)"

definition swapped_dir :: directory where
  "swapped_dir = present
     [\<lparr>fname = ''svc_2024-01-01_00-00-00.log'', mtime = Some 20, removable = True\<rparr>,
      \<lparr>fname = ''svc_2024-01-02_00-00-00.log'', mtime = Some 10, removable = True\<rparr>]"

text \<open>Two directories that hold the same files, possibly listed in another order.\<close>

definition same_files :: "directory \<Rightarrow> directory \<Rightarrow> bool" where
  "same_files d d' = (mset (files d) = mset (files d') \<and> dir_present d = dir_present d')"

definition tie_dir :: directory where
  "tie_dir = present
     [\<lparr>fname = ''a_2024-01-01_00-00-00.log'', mtime = Some 1, removable = True\<rparr>,
      \<lparr>fname = ''b_2024-01-01_00-00-00.log'', mtime = Some 2, removable = True\<rparr>]"

definition tie_dir_relisted :: directory where
  "tie_dir_relisted = present
     [\<lparr>fname = ''b_2024-01-01_00-00-00.log'', mtime = Some 2, removable = True\<rparr>,
      \<lparr>fname = ''a_2024-01-01_00-00-00.log'', mtime = Some 1, removable = True\<rparr>]"

definition swapped_dir_relisted :: directory where
  "swapped_dir_relisted = present
     [\<lparr>fname = ''svc_2024-01-02_00-00-00.log'', mtime = Some 10, removable = True\<rparr>,
      \<lparr>fname = ''svc_2024-01-01_00-00-00.log'', mtime = Some 20, removable = True\<rparr>]"

text \<open>
  The twelve session files \<^verbatim>\<open>svc_2024-01-01_00-00-00.log\<close> to \<^verbatim>\<open>svc_2024-01-12_00-00-00.log\<close>,
  and a directory that holds them with given modification times.
\<close>

definition twelve_sessions :: "string list" where
  "twelve_sessions =
     [''svc_2024-01-01_00-00-00.log'', ''svc_2024-01-02_00-00-00.log'',
      ''svc_2024-01-03_00-00-00.log'', ''svc_2024-01-04_00-00-00.log'',
      ''svc_2024-01-05_00-00-00.log'', ''svc_2024-01-06_00-00-00.log'',
      ''svc_2024-01-07_00-00-00.log'', ''svc_2024-01-08_00-00-00.log'',
      ''svc_2024-01-09_00-00-00.log'', ''svc_2024-01-10_00-00-00.log'',
      ''svc_2024-01-11_00-00-00.log'', ''svc_2024-01-12_00-00-00.log'']"

definition twelve_dir :: "posix_time list \<Rightarrow> directory" where
  "twelve_dir ts =
     present (map (\<lambda>(n, t). \<lparr>fname = n, mtime = Some t, removable = True\<rparr>) (zip twelve_sessions ts))"

subsection \<open>Rotated segments\<close>

text \<open>
  The name \<^verbatim>\<open>TimedRotatingFileHandler\<close> gives a segment it rotates out:
  \<^verbatim>\<open>baseFilename + "." + time.strftime(suffix, t)\<close>, where the suffix format follows from
  \<^verbatim>\<open>when.upper()\<close>: seconds, minutes, hours, or (for days, midnight and weekdays) the date.
\<close>

definition rotation_suffix :: "string \<Rightarrow> datetime \<Rightarrow> string" where
  "rotation_suffix wh dt =
     (case dt of (y, mo, d, h, mi, s, us) \<Rightarrow>
        let date = pad4 y @ ''-'' @ pad2 mo @ ''-'' @ pad2 d;
            u = upper wh
        in if u = ''S'' then date @ ''_'' @ pad2 h @ ''-'' @ pad2 mi @ ''-'' @ pad2 s
           else if u = ''M'' then date @ ''_'' @ pad2 h @ ''-'' @ pad2 mi
           else if u = ''H'' then date @ ''_'' @ pad2 h
           else date)"

definition rotation_filename :: "string \<Rightarrow> string \<Rightarrow> datetime \<Rightarrow> string" where
  "rotation_filename base wh dt = base @ ''.'' @ rotation_suffix wh dt"

text \<open>The directory without the files whose names do not end in \<^verbatim>\<open>.log\<close>.\<close>

definition only_logs :: "directory \<Rightarrow> directory" where
  "only_logs d = d\<lparr>files := filter (\<lambda>f. suffix ''.log'' (fname f)) (files d)\<rparr>"

definition rotated_dir :: directory where
  "rotated_dir = present
     [\<lparr>fname = ''svc_2024-01-01_00-00-00.log'', mtime = Some 30, removable = True\<rparr>,
      \<lparr>fname = ''svc_2024-01-01_00-00-00.log.2024-01-02'', mtime = Some 10, removable = True\<rparr>,
      \<lparr>fname = ''notes.txt'', mtime = Some 5, removable = True\<rparr>,
      \<lparr>fname = ''svc_2024-01-03_00-00-00.log'', mtime = Some 40, removable = True\<rparr>]"

text \<open>A pattern without wildcards.\<close>

definition literal :: "string \<Rightarrow> bool" where
  "literal s = (\<forall>c\<in>set s. c \<noteq> CHR ''*'' \<and> c \<noteq> CHR ''?'')"

subsection \<open>Example states\<close>

text \<open>A fresh process: no logger has a handler, no warning filter is set.\<close>

definition fresh :: "directory \<Rightarrow> state" where
  "fresh d = \<lparr>fs = d, loggers = (\<lambda>n. \<lparr>lg_level = NOTSET, handlers = []\<rparr>), warning_filters = []\<rparr>"

definition no_dir :: directory where
  "no_dir = \<lparr>files = [], dir_present = False, mkdir_ok = True, open_ok = True\<rparr>"

text \<open>A clock for the examples: the POSIX times 0 to 59 fall into the first minute of 2024.\<close>

definition utc_2024 :: "posix_time \<Rightarrow> datetime" where
  "utc_2024 t = (2024, 1, 1, 0, 0, nat \<lfloor>t\<rfloor>, 0)"

text \<open>
  The name of the session file of a call at local time \<open>dt\<close>, and the directory once the
  file of that name has been opened for appending at time \<open>now\<close>.
\<close>

definition session_name :: "string \<Rightarrow> datetime \<Rightarrow> string" where
  "session_name mname dt = mname @ ''_'' @ strftime dt @ ''.log''"

definition with_file :: "directory \<Rightarrow> string \<Rightarrow> posix_time \<Rightarrow> directory" where
  "with_file d nm now =
     (if nm \<in> fname ` set (files d) then d
      else d\<lparr>files := files d @ [\<lparr>fname = nm, mtime = Some now, removable = True\<rparr>]\<rparr>)"

text \<open>What a call needs to get as far as the retention pass.\<close>

definition can_log_to :: "directory \<Rightarrow> string \<Rightarrow> string \<Rightarrow> bool" where
  "can_log_to d mname wh =
     ((dir_present d \<or> mkdir_ok d) \<and> open_ok d \<and> CHR ''/'' \<notin> set mname \<and> valid_when wh)"

text \<open>
  Two calls for the module \<open>svc\<close> in one fresh process, one second apart, with the default
  arguments: the log directory does not exist before the first call.
\<close>

definition dynamic_once :: "(error + string) \<times> state" where
  "dynamic_once =
     DynamicPrompt_setup_logger utc_2024 5 ''svc'' ''logs'' DEBUG ''midnight'' 7 10 (fresh no_dir)"

definition dynamic_twice :: "(error + string) \<times> state" where
  "dynamic_twice =
     DynamicPrompt_setup_logger utc_2024 6 ''svc'' ''logs'' DEBUG ''midnight'' 7 10 (snd dynamic_once)"

definition static_once :: "(error + string) \<times> state" where
  "static_once =
     StaticPrompt_setup_logger utc_2024 5 ''svc'' ''logs'' DEBUG ''midnight'' 7 10 (fresh no_dir)"

definition static_twice :: "(error + string) \<times> state" where
  "static_twice =
     StaticPrompt_setup_logger utc_2024 6 ''svc'' ''logs'' DEBUG ''midnight'' 7 10 (snd static_once)"

text \<open>A datetime cut to whole seconds, which is all a file name can carry.\<close>

definition whole_second :: "datetime \<Rightarrow> datetime" where
  "whole_second dt = (case dt of (y, mo, d, h, mi, s, us) \<Rightarrow> (y, mo, d, h, mi, s, 0))"

text \<open>The name carries a timestamp: it ends in \<^verbatim>\<open>_YYYY-MM-DD_HH-MM-SS.log\<close> for a valid datetime.\<close>

definition carries_timestamp :: "string \<Rightarrow> bool" where
  "carries_timestamp nm =
     (\<exists>stem dt. valid_datetime dt \<and> nm = stem @ ''_'' @ strftime dt @ ''.log'')"

definition key_dir :: directory where
  "key_dir = present
     [\<lparr>fname = ''svc_2024-01-02_00-00-00.log'', mtime = Some 50, removable = True\<rparr>,
      \<lparr>fname = ''plain.log'', mtime = Some 30, removable = True\<rparr>,
      \<lparr>fname = ''broken.log'', mtime = None, removable = True\<rparr>]"

definition renamed_dir :: directory where
  "renamed_dir = present
     [\<lparr>fname = ''svc_2024-03-01_00-00-00.log'', mtime = Some 5, removable = True\<rparr>,
      \<lparr>fname = ''svc_2024-02-01_00-00-00.log'', mtime = Some 9, removable = True\<rparr>]"

definition old_name_dir :: directory where
  "old_name_dir = present
     [\<lparr>fname = ''broken.log'', mtime = None, removable = True\<rparr>,
      \<lparr>fname = ''old_1960-01-01_00-00-00.log'', mtime = Some 7, removable = True\<rparr>]"


text \<open>
  The modification time of the path can be read and converted to a \<^verbatim>\<open>datetime\<close>: the
  \<^verbatim>\<open>try\<close> of the global pass succeeds for it.
\<close>

definition convertible :: "(posix_time \<Rightarrow> datetime) \<Rightarrow> directory \<Rightarrow> string \<Rightarrow> bool" where
  "convertible localtime d p =
     (case getmtime d p of Inr m \<Rightarrow> valid_datetime (localtime m) | Inl e \<Rightarrow> False)"

definition far_dir :: directory where
  "far_dir = present
     [\<lparr>fname = ''plain.log'', mtime = Some 30, removable = True\<rparr>,
      \<lparr>fname = ''far.log'', mtime = Some 1000000000000, removable = True\<rparr>]"

section \<open>Properties\<close>

subsection \<open>Sorting, slicing and paths\<close>

lemma insort_key_keyed:
  "insort_key snd (x, k x) (map (\<lambda>p. (p, k p)) ys) = map (\<lambda>p. (p, k p)) (insort_key k x ys)"
  by (induction ys) simp_all

lemma sort_key_keyed:
  "sort_key snd (map (\<lambda>p. (p, k p)) xs) = map (\<lambda>p. (p, k p)) (sort_key k xs)"
  by (induction xs) (simp_all add: insort_key_keyed)

lemma map_fst_keyed: "map fst (map (\<lambda>p. (p, k p)) xs) = xs"
  by (induction xs) simp_all

lemma slice_to_nonneg: "0 \<le> n \<Longrightarrow> slice_to xs n = take (nat n) xs"
  by (simp add: slice_to_def)

lemma remove_each_Nil_take0: "remove_each (take 0 xs) [] d = ([], d)"
  by simp

lemma purge_old_logs_global_eq:
  "purge_old_logs_global ft log_dir keep d =
     remove_each (take (nat (int (length (glob_glob d log_dir ''*.log'')) - keep))
                    (sort_key (sort_key_of ft d) (glob_glob d log_dir ''*.log''))) [] d"
proof -
  define fl where "fl = glob_glob d log_dir ''*.log''"
  consider "fl = []" | "fl \<noteq> []" "int (length fl) > keep" | "fl \<noteq> []" "\<not> int (length fl) > keep"
    by blast
  then have "purge_old_logs_global ft log_dir keep d =
     remove_each (take (nat (int (length fl) - keep)) (sort_key (sort_key_of ft d) fl)) [] d"
  proof cases
    case 1
    then show ?thesis by (simp add: purge_old_logs_global_def Let_def fl_def)
  next
    case 2
    then have "0 \<le> int (length fl) - keep" by simp
    with 2 show ?thesis
      by (simp add: purge_old_logs_global_def Let_def sort_key_keyed slice_to_nonneg take_map
            map_fst_keyed o_def flip: fl_def)
  next
    case 3
    then have "nat (int (length fl) - keep) = 0" by simp
    with 3 show ?thesis
      by (simp add: purge_old_logs_global_def Let_def flip: fl_def)
  qed
  then show ?thesis by (simp add: fl_def)
qed

lemma basename_append:
  assumes "CHR ''/'' \<notin> set n" and "pre = [] \<or> last pre = CHR ''/''"
  shows "basename (pre @ n) = n"
proof -
  have tw: "takeWhile (\<lambda>c. c \<noteq> CHR ''/'') (rev n @ ys) = rev n @ takeWhile (\<lambda>c. c \<noteq> CHR ''/'') ys" for ys
    by (rule takeWhile_append2) (use assms in auto)
  show ?thesis
  proof (cases pre rule: rev_cases)
    case Nil
    have "basename n = rev (takeWhile (\<lambda>c. c \<noteq> CHR ''/'') (rev n @ []))"
      by (simp add: basename_def)
    also have "\<dots> = rev (rev n @ takeWhile (\<lambda>c. c \<noteq> CHR ''/'') [])"
      by (simp only: tw)
    finally show ?thesis using Nil by simp
  next
    case (snoc ys y)
    with assms(2) have y: "y = CHR ''/''" by simp
    have "basename (pre @ n) = rev (takeWhile (\<lambda>c. c \<noteq> CHR ''/'') (rev n @ (CHR ''/'' # rev ys)))"
      by (simp add: basename_def snoc y)
    also have "\<dots> = rev (rev n @ takeWhile (\<lambda>c. c \<noteq> CHR ''/'') (CHR ''/'' # rev ys))"
      by (simp only: tw)
    finally show ?thesis by simp
  qed
qed

lemma basename_path_join:
  assumes "CHR ''/'' \<notin> set n"
  shows "basename (path_join a n) = n"
proof -
  have hdn: "(if n \<noteq> [] \<and> hd n = CHR ''/'' then x else y) = y" for x y :: string
    using assms by (cases n) auto
  show ?thesis
  proof (cases "a = [] \<or> last a = CHR ''/''")
    case True
    then have "path_join a n = a @ n" unfolding path_join_def hdn by simp
    then show ?thesis using basename_append[OF assms True] by simp
  next
    case False
    then have "path_join a n = (a @ ''/'') @ n" unfolding path_join_def hdn by simp
    then show ?thesis using basename_append[OF assms, of "a @ ''/''"] by simp
  qed
qed

lemma glob_glob_names: "glob_glob d log_dir pat = map (path_join log_dir) (glob_names d pat)"
  by (simp add: glob_glob_def glob_names_def)

lemma glob_names_subset: "set (glob_names d pat) \<subseteq> fname ` set (files d)"
  by (auto simp add: glob_names_def)

lemma glob_names_noslash: "wf_dir d \<Longrightarrow> n \<in> set (glob_names d pat) \<Longrightarrow> CHR ''/'' \<notin> set n"
  using glob_names_subset[of d pat] by (auto simp add: wf_dir_def)

lemma glob_names_distinct: "wf_dir d \<Longrightarrow> distinct (glob_names d pat)"
  by (simp add: glob_names_def wf_dir_def)

lemma basename_glob:
  assumes "wf_dir d"
  shows "map basename (glob_glob d log_dir pat) = glob_names d pat"
proof -
  have "map (basename \<circ> path_join log_dir) (glob_names d pat) = map (\<lambda>n. n) (glob_names d pat)"
    by (rule map_cong[OF refl]) (simp add: basename_path_join glob_names_noslash[OF assms])
  then show ?thesis by (simp add: glob_glob_names)
qed

lemma glob_glob_distinct: "wf_dir d \<Longrightarrow> distinct (map basename (glob_glob d log_dir pat))"
  by (simp add: basename_glob glob_names_distinct)

lemma find_filter_implied:
  "(\<And>x. P x \<Longrightarrow> Q x) \<Longrightarrow> find P (filter Q xs) = find P xs"
  by (induction xs) auto

lemma lookup_after_remove:
  assumes "basename q \<noteq> basename p"
  shows "lookup (d\<lparr>files := filter (\<lambda>g. fname g \<noteq> basename p) (files d)\<rparr>) q = lookup d q"
proof -
  have "find (\<lambda>f. fname f = basename q) (filter (\<lambda>g. fname g \<noteq> basename p) (files d)) =
        find (\<lambda>f. fname f = basename q) (files d)"
    by (rule find_filter_implied) (use assms in auto)
  then show ?thesis by (simp add: lookup_def)
qed

lemma can_remove_after_remove:
  "basename q \<noteq> basename p \<Longrightarrow>
     can_remove (d\<lparr>files := filter (\<lambda>g. fname g \<noteq> basename p) (files d)\<rparr>) q = can_remove d q"
  by (simp add: can_remove_def lookup_after_remove)

lemma os_remove_ok:
  "can_remove d p \<Longrightarrow>
     os_remove d p = (Inr (), d\<lparr>files := filter (\<lambda>g. fname g \<noteq> basename p) (files d)\<rparr>)"
  by (auto simp add: can_remove_def os_remove_def split: option.splits)

lemma os_remove_fails: "\<not> can_remove d p \<Longrightarrow> os_remove d p = (Inl OSError, d)"
  by (auto simp add: can_remove_def os_remove_def split: option.splits)

lemma remove_each_eq:
  assumes "distinct (map basename ps)"
  shows "remove_each ps acc d =
           (acc @ filter (can_remove d) ps,
            d\<lparr>files := filter (\<lambda>g. fname g \<notin> basename ` set (filter (can_remove d) ps)) (files d)\<rparr>)"
  using assms
proof (induction ps arbitrary: acc d)
  case Nil
  then show ?case by simp
next
  case (Cons p ps)
  show ?case
  proof (cases "can_remove d p")
    case False
    with Cons show ?thesis by (simp add: os_remove_fails)
  next
    case True
    define d' where "d' = d\<lparr>files := filter (\<lambda>g. fname g \<noteq> basename p) (files d)\<rparr>"
    have same: "can_remove d' q = can_remove d q" if "q \<in> set ps" for q
    proof -
      have "basename q \<in> basename ` set ps" using that by (rule imageI)
      with Cons.prems have "basename q \<noteq> basename p" by auto
      then show ?thesis unfolding d'_def by (rule can_remove_after_remove)
    qed
    then have flt: "filter (can_remove d') ps = filter (can_remove d) ps"
      by (intro filter_cong) auto
    have "remove_each (p # ps) acc d = remove_each ps (acc @ [p]) d'"
      using True by (simp add: os_remove_ok d'_def)
    also have "\<dots> = ((acc @ [p]) @ filter (can_remove d') ps,
        d'\<lparr>files := filter (\<lambda>g. fname g \<notin> basename ` set (filter (can_remove d') ps)) (files d')\<rparr>)"
      using Cons.prems by (intro Cons.IH) simp
    also have "\<dots> = ((acc @ [p]) @ filter (can_remove d) ps,
        d'\<lparr>files := filter (\<lambda>g. fname g \<notin> basename ` set (filter (can_remove d) ps)) (files d')\<rparr>)"
      by (simp only: flt)
    also have "\<dots> = (acc @ filter (can_remove d) (p # ps),
        d\<lparr>files := filter (\<lambda>g. fname g \<notin> basename ` set (filter (can_remove d) (p # ps))) (files d)\<rparr>)"
      using True unfolding d'_def by (auto intro: filter_cong)
    finally show ?thesis .
  qed
qed

lemma lookup_path_join:
  "CHR ''/'' \<notin> set n \<Longrightarrow> lookup d (path_join log_dir n) = find (\<lambda>f. fname f = n) (files d)"
  by (simp add: lookup_def basename_path_join)

subsection \<open>The two passes as a deletion loop over their candidates\<close>

lemma global_candidates_take:
  "global_candidates ft log_dir keep d =
     take (nat (int (length (glob_glob d log_dir ''*.log'')) - keep))
       (sort_key (sort_key_of ft d) (glob_glob d log_dir ''*.log''))"
  by (simp add: global_candidates_def Let_def slice_to_def)

lemma purge_old_logs_global_loop:
  "purge_old_logs_global ft log_dir keep d = remove_each (global_candidates ft log_dir keep d) [] d"
  by (simp only: purge_old_logs_global_eq global_candidates_take)

lemma mtime_keys_readable:
  "list_all (readable d) ps \<Longrightarrow> mtime_keys d ps = Inr (map (\<lambda>p. (p, the_mtime d p)) ps)"
  by (induction ps) (auto simp add: readable_def the_mtime_def split: sum.splits)

lemma getmtime_error: "getmtime d p = Inl e \<Longrightarrow> e = OSError"
  by (auto simp add: getmtime_def split: option.splits)

lemma mtime_keys_unreadable:
  "\<not> list_all (readable d) ps \<Longrightarrow> mtime_keys d ps = Inl OSError"
  by (induction ps) (auto simp add: readable_def split: sum.splits dest: getmtime_error)

lemma purge_old_timestamped_logs_loop:
  assumes "list_all (readable d) (glob_glob d log_dir (module_name @ ''_*.log''))"
  shows "purge_old_timestamped_logs module_name log_dir keep d =
           (Inr (fst (remove_each (scoped_candidates module_name log_dir keep d) [] d)),
            snd (remove_each (scoped_candidates module_name log_dir keep d) [] d))"
proof -
  define fl where "fl = glob_glob d log_dir (module_name @ ''_*.log'')"
  have keys: "mtime_keys d fl = Inr (map (\<lambda>p. (p, the_mtime d p)) fl)"
    using assms unfolding fl_def by (rule mtime_keys_readable)
  have srt: "map fst (sort_key snd (map (\<lambda>p. (p, the_mtime d p)) fl)) = sort_key (the_mtime d) fl"
    by (simp add: sort_key_keyed o_def)
  show ?thesis
  proof (cases "fl = []")
    case True
    then show ?thesis
      by (simp add: purge_old_timestamped_logs_def scoped_candidates_def Let_def slice_to_def flip: fl_def)
  next
    case False
    then show ?thesis
      unfolding purge_old_timestamped_logs_def scoped_candidates_def Let_def fl_def[symmetric] keys
      by (simp add: srt split: prod.splits)
  qed
qed

lemma purge_old_timestamped_logs_raises:
  assumes "\<not> list_all (readable d) (glob_glob d log_dir (module_name @ ''_*.log''))"
  shows "purge_old_timestamped_logs module_name log_dir keep d = (Inl OSError, d)"
proof -
  from assms have "glob_glob d log_dir (module_name @ ''_*.log'') \<noteq> []" by auto
  then show ?thesis
    using mtime_keys_unreadable[OF assms]
    by (simp add: purge_old_timestamped_logs_def Let_def)
qed

lemma length_global_candidates:
  "int (length (global_candidates ft log_dir keep d)) =
     max 0 (min (int (length (glob_glob d log_dir ''*.log'')))
                (int (length (glob_glob d log_dir ''*.log'')) - keep))"
  by (simp add: global_candidates_take)

lemma length_scoped_candidates:
  "int (length (scoped_candidates module_name log_dir keep d)) \<le>
     max 0 (int (length (glob_glob d log_dir (module_name @ ''_*.log''))) - keep)"
  by (auto simp add: scoped_candidates_def Let_def slice_to_def min_def)

lemma set_global_candidates:
  "set (global_candidates ft log_dir keep d) \<subseteq> set (glob_glob d log_dir ''*.log'')"
  using set_take_subset[of _ "sort_key (sort_key_of ft d) (glob_glob d log_dir ''*.log'')"]
  by (simp add: global_candidates_take)

lemma set_scoped_candidates:
  "set (scoped_candidates module_name log_dir keep d) \<subseteq>
     set (glob_glob d log_dir (module_name @ ''_*.log''))"
  using set_take_subset[of _ "sort_key (the_mtime d) (glob_glob d log_dir (module_name @ ''_*.log''))"]
  by (auto simp add: scoped_candidates_def Let_def slice_to_def)

lemma distinct_map_subseq_take:
  "distinct (map f xs) \<Longrightarrow> distinct (map f (take n xs))"
  by (simp add: take_map[symmetric] distinct_take del: take_map)

lemma distinct_global_candidates:
  assumes "wf_dir d"
  shows "distinct (map basename (global_candidates ft log_dir keep d))"
proof -
  have "distinct (map basename (sort_key (sort_key_of ft d) (glob_glob d log_dir ''*.log'')))"
    using glob_glob_distinct[OF assms, of log_dir "''*.log''"]
    by (metis distinct_map distinct_sort set_sort)
  then show ?thesis unfolding global_candidates_take by (rule distinct_map_subseq_take)
qed

lemma distinct_scoped_candidates:
  assumes "wf_dir d"
  shows "distinct (map basename (scoped_candidates module_name log_dir keep d))"
proof -
  have "distinct (map basename (sort_key (the_mtime d) (glob_glob d log_dir (module_name @ ''_*.log''))))"
    using glob_glob_distinct[OF assms, of log_dir "module_name @ ''_*.log''"]
    by (metis distinct_map distinct_sort set_sort)
  then show ?thesis
    by (simp add: scoped_candidates_def Let_def slice_to_def distinct_map_subseq_take)
qed

subsection \<open>What a pass returns and leaves behind\<close>

lemmas parse_eval = parse_timestamp_from_filename_def basename_def re_search_def TIMESTAMP_RE_def
  TIMESTAMP_FMT_def strptime_def is_digit_def digits_def digit_val_def valid_datetime_def
  days_in_month_def is_leap_def Let_def

lemmas dir_eval = present_def glob_glob_def ishidden_def path_join_def getmtime_def lookup_def
  os_remove_def can_remove_def readable_def the_mtime_def wf_dir_def slice_to_def

lemmas scope_eval = plain_name_def plain_dir_def ascii_names_def ascii_name_def suffix_to_prefix
  ishidden_def present_def


lemma example_scope:
  "plain_name ''svc''" "plain_dir ''logs''" "valid_datetime (utc_1970 0)" "valid_datetime (utc_2024 0)"
  by (simp_all add: scope_eval utc_1970_def utc_2024_def valid_datetime_def days_in_month_def)

lemma purge_old_logs_global_result:
  assumes "wf_dir d"
  shows "purge_old_logs_global ft log_dir keep d =
           (filter (can_remove d) (global_candidates ft log_dir keep d),
            d\<lparr>files := filter (\<lambda>g. fname g \<notin>
                 basename ` set (filter (can_remove d) (global_candidates ft log_dir keep d))) (files d)\<rparr>)"
  unfolding purge_old_logs_global_loop
  using remove_each_eq[OF distinct_global_candidates[OF assms], where acc = "[]"] by simp

lemma purge_old_timestamped_logs_result:
  assumes "wf_dir d" and "list_all (readable d) (glob_glob d log_dir (module_name @ ''_*.log''))"
  shows "purge_old_timestamped_logs module_name log_dir keep d =
           (Inr (filter (can_remove d) (scoped_candidates module_name log_dir keep d)),
            d\<lparr>files := filter (\<lambda>g. fname g \<notin>
                 basename ` set (filter (can_remove d) (scoped_candidates module_name log_dir keep d))) (files d)\<rparr>)"
  unfolding purge_old_timestamped_logs_loop[OF assms(2)]
  using remove_each_eq[OF distinct_scoped_candidates[OF assms(1)], where acc = "[]"] by simp

lemma vanished_file_was_deleted:
  assumes wf: "wf_dir d" and sub: "set ps \<subseteq> set (glob_glob d log_dir pat)"
    and f: "f \<in> set (files d)" and gone: "fname f \<in> basename ` set ps"
  shows "path_join log_dir (fname f) \<in> set ps"
proof -
  from gone obtain p where p: "p \<in> set ps" "basename p = fname f" by auto
  with sub obtain n where n: "n \<in> set (glob_names d pat)" "p = path_join log_dir n"
    by (auto simp add: glob_glob_names)
  from glob_names_noslash[OF wf n(1)] have "basename p = n" by (simp add: n(2) basename_path_join)
  with p n show ?thesis by simp
qed

lemma glob_member_matches:
  assumes wf: "wf_dir d" and p: "p \<in> set (glob_glob d log_dir pat)"
  shows "fnmatch (basename p) pat"
proof -
  from p have "basename p \<in> set (map basename (glob_glob d log_dir pat))" by simp
  then have "basename p \<in> set (glob_names d pat)" by (simp only: basename_glob[OF wf])
  then show ?thesis by (auto simp add: glob_names_def split: if_splits)
qed

text \<open>
  C5. A candidate whose removal fails (the file is gone, or cannot be removed) raises nothing
  and does not stop the loop: the pass returns exactly the candidates whose removal
  succeeded, in candidate order. This holds for the deletion loop on any list of candidate
  paths, also one that names files no longer in the directory; for the global pass, called
  with a plain directory name on a directory of ASCII file names where timestamp 0 can be
  converted; and for the scoped pass, called with a plain module and directory name, once
  it has read the modification times.
\<close>

theorem deletion_failures_are_skipped:
  "(distinct (map basename to_delete) \<longrightarrow>
      fst (remove_each to_delete [] d) = filter (can_remove d) to_delete) \<and>
   (wf_dir d \<longrightarrow> plain_dir log_dir \<longrightarrow> ascii_names d \<longrightarrow> valid_datetime (ft 0) \<longrightarrow>
      fst (purge_old_logs_global ft log_dir keep d) =
        filter (can_remove d) (global_candidates ft log_dir keep d)) \<and>
   (wf_dir d \<longrightarrow> plain_name mname \<longrightarrow> plain_dir log_dir \<longrightarrow>
    list_all (readable d) (glob_glob d log_dir (mname @ ''_*.log'')) \<longrightarrow>
      fst (purge_old_timestamped_logs mname log_dir keep d) =
        Inr (filter (can_remove d) (scoped_candidates mname log_dir keep d)))"
  by (simp add: remove_each_eq purge_old_logs_global_result purge_old_timestamped_logs_result)

theorem deletion_failures_are_skipped_witness:
  "distinct (map basename [''logs/gone.log'', ''logs/svc_a.log'', ''logs/svc_b.log'', ''logs/svc_c.log'']) \<and>
   fst (remove_each [''logs/gone.log'', ''logs/svc_a.log'', ''logs/svc_b.log'', ''logs/svc_c.log''] []
          locked_dir) = [''logs/svc_a.log'', ''logs/svc_c.log''] \<and>
   wf_dir locked_dir \<and> plain_dir ''logs'' \<and> ascii_names locked_dir \<and> valid_datetime (utc_1970 0) \<and>
   fst (purge_old_logs_global utc_1970 ''logs'' 0 locked_dir) = [''logs/svc_a.log'', ''logs/svc_c.log''] \<and>
   plain_name ''svc'' \<and>
   list_all (readable locked_dir) (glob_glob locked_dir ''logs'' (''svc'' @ ''_*.log'')) \<and>
   fst (purge_old_timestamped_logs ''svc'' ''logs'' 1 locked_dir) = Inr [''logs/svc_a.log'']"
proof -
  have h1: "distinct (map basename [''logs/gone.log'', ''logs/svc_a.log'', ''logs/svc_b.log'', ''logs/svc_c.log''])"
    by (simp add: basename_def)
  have h2: "wf_dir locked_dir"
    by (simp add: locked_dir_def dir_eval)
  have sc: "ascii_names locked_dir"
    by (simp add: locked_dir_def scope_eval)
  have h3: "list_all (readable locked_dir) (glob_glob locked_dir ''logs'' (''svc'' @ ''_*.log''))"
    by (simp add: locked_dir_def dir_eval basename_def)
  have e1: "filter (can_remove locked_dir) [''logs/gone.log'', ''logs/svc_a.log'', ''logs/svc_b.log'', ''logs/svc_c.log'']
              = [''logs/svc_a.log'', ''logs/svc_c.log'']"
    by (simp add: locked_dir_def dir_eval basename_def)
  have e2: "filter (can_remove locked_dir) (global_candidates utc_1970 ''logs'' 0 locked_dir)
              = [''logs/svc_a.log'', ''logs/svc_c.log'']"
    by (simp add: locked_dir_def dir_eval global_candidates_def sort_key_of_def fromtimestamp_def
          parse_eval utc_1970_def)
  have e3: "filter (can_remove locked_dir) (scoped_candidates ''svc'' ''logs'' 1 locked_dir)
              = [''logs/svc_a.log'']"
    by (simp add: locked_dir_def dir_eval scoped_candidates_def basename_def)
  show ?thesis
    using deletion_failures_are_skipped[where to_delete = "[''logs/gone.log'', ''logs/svc_a.log'', ''logs/svc_b.log'', ''logs/svc_c.log'']"
        and d = locked_dir and ft = utc_1970 and log_dir = "''logs''" and keep = 0 and mname = "''svc''"]
      deletion_failures_are_skipped[where to_delete = "[]" and d = locked_dir and ft = utc_1970
        and log_dir = "''logs''" and keep = 1 and mname = "''svc''"] h1 h2 h3 sc
      example_scope
    by (simp only: e1 e2 e3 simp_thms)
qed

lemma other_not_svc: "\<not> fnmatch ''other_2024-01-01_00-00-00.log'' (''svc'' @ ''_*.log'')"
  by simp

text \<open>
  C4. A pass deletes at most \<open>max(0, count - keep)\<close> files, where \<open>count\<close> is the number of
  files its selector matches, and every file it deletes is one its selector matched: a
  file of the directory that is gone afterwards is in the returned list, and the returned
  list is part of the glob result. This is stated for a plain directory name and, in the
  scoped pass, a plain module name, where the selector is the one of the model. The scoped
  pass for module \<open>svc\<close> leaves a file named \<open>other_2024-01-01_00-00-00.log\<close> alone. A scoped
  pass that raises has deleted nothing.
\<close>

theorem pass_deletes_only_surplus_matches:
  assumes "wf_dir d"
  shows
    "(plain_dir log_dir \<longrightarrow>
        (case purge_old_logs_global ft log_dir keep d of
           (deleted, d') \<Rightarrow>
             int (length deleted) \<le> max 0 (int (length (glob_glob d log_dir ''*.log'')) - keep) \<and>
             set deleted \<subseteq> set (glob_glob d log_dir ''*.log'') \<and>
             (\<forall>f\<in>set (files d). f \<in> set (files d') \<or> path_join log_dir (fname f) \<in> set deleted))) \<and>
     (plain_name mname \<longrightarrow> plain_dir log_dir \<longrightarrow>
        (case purge_old_timestamped_logs mname log_dir keep d of
           (Inl e, d') \<Rightarrow> d' = d
         | (Inr deleted, d') \<Rightarrow>
             int (length deleted) \<le>
               max 0 (int (length (glob_glob d log_dir (mname @ ''_*.log''))) - keep) \<and>
             set deleted \<subseteq> set (glob_glob d log_dir (mname @ ''_*.log'')) \<and>
             (\<forall>f\<in>set (files d). f \<in> set (files d') \<or> path_join log_dir (fname f) \<in> set deleted))) \<and>
     (case purge_old_timestamped_logs ''svc'' log_dir keep d of
        (r, d') \<Rightarrow>
          (\<forall>deleted. r = Inr deleted \<longrightarrow>
             path_join log_dir ''other_2024-01-01_00-00-00.log'' \<notin> set deleted) \<and>
          (\<forall>f\<in>set (files d). fname f = ''other_2024-01-01_00-00-00.log'' \<longrightarrow> f \<in> set (files d')))"
proof -
  let ?G = "global_candidates ft log_dir keep d"
  have lenG: "int (length (filter (can_remove d) ?G)) \<le>
                max 0 (int (length (glob_glob d log_dir ''*.log'')) - keep)"
  proof -
    have "int (length (filter (can_remove d) ?G)) \<le> int (length ?G)" by simp
    also have "\<dots> \<le> max 0 (int (length (glob_glob d log_dir ''*.log'')) - keep)"
      unfolding length_global_candidates by auto
    finally show ?thesis .
  qed
  have subG: "set (filter (can_remove d) ?G) \<subseteq> set (glob_glob d log_dir ''*.log'')"
    using set_global_candidates[of ft log_dir keep d] by auto
  have goneG: "f \<in> set (files d) \<Longrightarrow> fname f \<in> basename ` set (filter (can_remove d) ?G) \<Longrightarrow>
      path_join log_dir (fname f) \<in> set (filter (can_remove d) ?G)" for f
    by (rule vanished_file_was_deleted[OF assms subG])
  have part1: "case purge_old_logs_global ft log_dir keep d of
        (deleted, d') \<Rightarrow>
          int (length deleted) \<le> max 0 (int (length (glob_glob d log_dir ''*.log'')) - keep) \<and>
          set deleted \<subseteq> set (glob_glob d log_dir ''*.log'') \<and>
          (\<forall>f\<in>set (files d). f \<in> set (files d') \<or> path_join log_dir (fname f) \<in> set deleted)"
    unfolding purge_old_logs_global_result[OF assms] using lenG subG goneG by auto
  have scoped: "case purge_old_timestamped_logs m log_dir keep d of
        (Inl e, d') \<Rightarrow> d' = d
      | (Inr deleted, d') \<Rightarrow>
          int (length deleted) \<le> max 0 (int (length (glob_glob d log_dir (m @ ''_*.log''))) - keep) \<and>
          set deleted \<subseteq> set (glob_glob d log_dir (m @ ''_*.log'')) \<and>
          (\<forall>f\<in>set (files d). f \<in> set (files d') \<or> path_join log_dir (fname f) \<in> set deleted)" for m
  proof (cases "list_all (readable d) (glob_glob d log_dir (m @ ''_*.log''))")
    case False
    then show ?thesis by (simp add: purge_old_timestamped_logs_raises)
  next
    case True
    let ?S = "scoped_candidates m log_dir keep d"
    have lenS: "int (length (filter (can_remove d) ?S)) \<le>
                  max 0 (int (length (glob_glob d log_dir (m @ ''_*.log''))) - keep)"
    proof -
      have "int (length (filter (can_remove d) ?S)) \<le> int (length ?S)" by simp
      also note length_scoped_candidates
      finally show ?thesis .
    qed
    have subS: "set (filter (can_remove d) ?S) \<subseteq> set (glob_glob d log_dir (m @ ''_*.log''))"
      using set_scoped_candidates[of m log_dir keep d] by auto
    have goneS: "f \<in> set (files d) \<Longrightarrow> fname f \<in> basename ` set (filter (can_remove d) ?S) \<Longrightarrow>
        path_join log_dir (fname f) \<in> set (filter (can_remove d) ?S)" for f
      by (rule vanished_file_was_deleted[OF assms subS])
    show ?thesis
      unfolding purge_old_timestamped_logs_result[OF assms True] using lenS subS goneS by auto
  qed
  have other: "path_join log_dir ''other_2024-01-01_00-00-00.log''
                 \<notin> set (glob_glob d log_dir (''svc'' @ ''_*.log''))"
  proof
    assume "path_join log_dir ''other_2024-01-01_00-00-00.log'' \<in> set (glob_glob d log_dir (''svc'' @ ''_*.log''))"
    from glob_member_matches[OF assms this]
    have "fnmatch ''other_2024-01-01_00-00-00.log'' (''svc'' @ ''_*.log'')"
      by (simp add: basename_path_join)
    with other_not_svc show False by contradiction
  qed
  have part3: "case purge_old_timestamped_logs ''svc'' log_dir keep d of
        (r, d') \<Rightarrow>
          (\<forall>deleted. r = Inr deleted \<longrightarrow>
             path_join log_dir ''other_2024-01-01_00-00-00.log'' \<notin> set deleted) \<and>
          (\<forall>f\<in>set (files d). fname f = ''other_2024-01-01_00-00-00.log'' \<longrightarrow> f \<in> set (files d'))"
    using scoped[of "''svc''"] other
    by (cases "purge_old_timestamped_logs ''svc'' log_dir keep d")
       (auto split: sum.splits)
  from part1 scoped[of mname] part3 show ?thesis by blast
qed

lemmas pass_eval = purge_old_logs_global_def purge_old_timestamped_logs_def sort_key_of_def
  fromtimestamp_def utc_1970_def parse_eval dir_eval

theorem pass_deletes_only_surplus_matches_witness:
  "wf_dir mixed_dir \<and> plain_name ''svc'' \<and> plain_dir ''logs'' \<and>
   length (glob_glob mixed_dir ''logs'' ''*.log'') = 3 \<and>
   fst (purge_old_logs_global utc_1970 ''logs'' 1 mixed_dir) =
     [''logs/other_2024-01-01_00-00-00.log'', ''logs/svc_2024-01-02_00-00-00.log''] \<and>
   length (glob_glob mixed_dir ''logs'' (''svc'' @ ''_*.log'')) = 2 \<and>
   purge_old_timestamped_logs ''svc'' ''logs'' 1 mixed_dir =
     (Inr [''logs/svc_2024-01-02_00-00-00.log''],
      present
        [\<lparr>fname = ''other_2024-01-01_00-00-00.log'', mtime = Some 1, removable = True\<rparr>,
         \<lparr>fname = ''svc_2024-01-03_00-00-00.log'', mtime = Some 3, removable = True\<rparr>,
         \<lparr>fname = ''notes.txt'', mtime = Some 0, removable = True\<rparr>])"
proof -
  have h: "wf_dir mixed_dir"
    by (simp add: mixed_dir_def dir_eval)
  have g: "length (glob_glob mixed_dir ''logs'' ''*.log'') = 3"
    "length (glob_glob mixed_dir ''logs'' (''svc'' @ ''_*.log'')) = 2"
    by (simp_all add: mixed_dir_def dir_eval)
  have e1: "fst (purge_old_logs_global utc_1970 ''logs'' 1 mixed_dir) =
     [''logs/other_2024-01-01_00-00-00.log'', ''logs/svc_2024-01-02_00-00-00.log'']"
    by (simp add: mixed_dir_def pass_eval)
  have e2: "purge_old_timestamped_logs ''svc'' ''logs'' 1 mixed_dir =
     (Inr [''logs/svc_2024-01-02_00-00-00.log''],
      present
        [\<lparr>fname = ''other_2024-01-01_00-00-00.log'', mtime = Some 1, removable = True\<rparr>,
         \<lparr>fname = ''svc_2024-01-03_00-00-00.log'', mtime = Some 3, removable = True\<rparr>,
         \<lparr>fname = ''notes.txt'', mtime = Some 0, removable = True\<rparr>])"
    by (simp add: mixed_dir_def pass_eval)
  show ?thesis
    using pass_deletes_only_surplus_matches[OF h, where ft = utc_1970 and log_dir = "''logs''" and keep = 1
        and mname = "''svc''"] h g e1 e2 example_scope
    by simp
qed

subsection \<open>Which files a pass deletes\<close>

lemma take_sort_key_oldest:
  assumes "distinct (map k xs)"
  shows "oldest_cut k xs (take m (sort_key k xs))"
proof -
  let ?s = "sort_key k xs"
  have dk: "distinct (map k ?s)"
    using assms by (metis distinct_map distinct_sort set_sort)
  then have ds: "distinct ?s" by (simp add: distinct_map)
  have srt: "sorted (map k (take m ?s @ drop m ?s))" by simp
  have le: "k x \<le> k y" if "x \<in> set (take m ?s)" "y \<in> set (drop m ?s)" for x y
    using srt that unfolding map_append sorted_append by auto
  have "k x < k y" if x: "x \<in> set (take m ?s)" and y: "y \<in> set xs - set (take m ?s)" for x y
  proof -
    have "set xs = set (take m ?s) \<union> set (drop m ?s)"
      by (metis append_take_drop_id set_append set_sort)
    with y have yd: "y \<in> set (drop m ?s)" by auto
    from x y have "x \<noteq> y" by auto
    moreover have "x \<in> set ?s" using x by (rule in_set_takeD)
    moreover have "y \<in> set ?s" using y by simp
    ultimately have "k x \<noteq> k y" using dk by (auto simp add: distinct_map inj_on_def)
    with le[OF x yd] show ?thesis by simp
  qed
  moreover have "distinct (take m ?s)" using ds by (rule distinct_take)
  moreover have "set (take m ?s) \<subseteq> set xs" using set_take_subset[of m ?s] by simp
  ultimately show ?thesis unfolding oldest_cut_def by blast
qed

lemma oldest_cut_cong:
  "oldest_cut k xs ys \<Longrightarrow> (\<And>x. x \<in> set xs \<Longrightarrow> k x = k' x) \<Longrightarrow> oldest_cut k' xs ys"
  unfolding oldest_cut_def by (metis DiffD1 subsetD)

lemma glob_all_removable:
  assumes wf: "wf_dir d" and rm: "all_removable d" and p: "p \<in> set (glob_glob d log_dir pat)"
  shows "can_remove d p"
proof -
  from p obtain n where n: "n \<in> set (glob_names d pat)" "p = path_join log_dir n"
    by (auto simp add: glob_glob_names)
  from glob_names_subset n(1) obtain f where f: "f \<in> set (files d)" "fname f = n" by blast
  have "lookup d p = find (\<lambda>f. fname f = n) (files d)"
    unfolding n(2) by (rule lookup_path_join[OF glob_names_noslash[OF wf n(1)]])
  moreover from f obtain g where "find (\<lambda>f. fname f = n) (files d) = Some g"
    by (cases "find (\<lambda>f. fname f = n) (files d)") (auto simp add: find_None_iff)
  moreover from this have "g \<in> set (files d)"
    by (auto simp add: find_Some_iff)
  ultimately show ?thesis using rm by (simp add: can_remove_def all_removable_def)
qed

lemma filter_all: "(\<And>x. x \<in> set xs \<Longrightarrow> P x) \<Longrightarrow> filter P xs = xs"
  by (induction xs) auto

lemma files_after_pass:
  assumes wf: "wf_dir d" and sub: "set ps \<subseteq> set (glob_glob d log_dir pat)"
  shows "filter (\<lambda>g. fname g \<notin> basename ` set ps) (files d) =
         filter (\<lambda>g. path_join log_dir (fname g) \<notin> set ps) (files d)"
proof (rule filter_cong[OF refl])
  fix g assume g: "g \<in> set (files d)"
  then have ns: "CHR ''/'' \<notin> set (fname g)" using wf by (simp add: wf_dir_def)
  show "(fname g \<notin> basename ` set ps) = (path_join log_dir (fname g) \<notin> set ps)"
  proof -
    have "path_join log_dir (fname g) \<in> set ps" if "fname g \<in> basename ` set ps"
      using vanished_file_was_deleted[OF wf sub g that] .
    moreover have "fname g \<in> basename ` set ps" if "path_join log_dir (fname g) \<in> set ps"
      using imageI[OF that, of basename] by (simp add: basename_path_join[OF ns])
    ultimately show ?thesis by blast
  qed
qed

lemma sort_key_of_parsed:
  "parse_timestamp_from_filename p \<noteq> None \<Longrightarrow> sort_key_of ft d p = parsed p"
  by (auto simp add: sort_key_of_def parsed_def)

lemma global_pass_all_removable:
  assumes wf: "wf_dir d" and rm: "all_removable d"
  shows "purge_old_logs_global ft log_dir keep d =
           (global_candidates ft log_dir keep d,
            d\<lparr>files := filter (\<lambda>g. path_join log_dir (fname g) \<notin> set (global_candidates ft log_dir keep d))
                           (files d)\<rparr>)"
proof -
  let ?C = "global_candidates ft log_dir keep d"
  have "filter (can_remove d) ?C = ?C"
    by (rule filter_all) (use set_global_candidates glob_all_removable[OF wf rm] in blast)
  then show ?thesis
    using purge_old_logs_global_result[OF wf, of ft log_dir keep]
      files_after_pass[OF wf set_global_candidates, of ft log_dir keep]
    by simp
qed

lemma scoped_pass_all_removable:
  assumes wf: "wf_dir d" and rm: "all_removable d"
    and rd: "list_all (readable d) (glob_glob d log_dir (m @ ''_*.log''))"
  shows "purge_old_timestamped_logs m log_dir keep d =
           (Inr (scoped_candidates m log_dir keep d),
            d\<lparr>files := filter (\<lambda>g. path_join log_dir (fname g) \<notin> set (scoped_candidates m log_dir keep d))
                           (files d)\<rparr>)"
proof -
  let ?C = "scoped_candidates m log_dir keep d"
  have "filter (can_remove d) ?C = ?C"
    by (rule filter_all) (use set_scoped_candidates glob_all_removable[OF wf rm] in blast)
  then show ?thesis
    using purge_old_timestamped_logs_result[OF wf rd, of keep]
      files_after_pass[OF wf set_scoped_candidates, of m log_dir keep]
    by simp
qed

lemma scoped_candidates_take:
  "1 \<le> keep \<Longrightarrow>
   scoped_candidates m log_dir keep d =
     take (nat (int (length (glob_glob d log_dir (m @ ''_*.log''))) - keep))
       (sort_key (the_mtime d) (glob_glob d log_dir (m @ ''_*.log'')))"
  by (simp add: scoped_candidates_def Let_def slice_to_def)

text \<open>
  C1, as amended. Let every removal succeed, \<open>keep \<ge> 0\<close>, and the directory name be plain. The
  global pass over \<open>n\<close> matched files with distinct parseable file-name timestamps deletes
  exactly \<open>max(0, n - keep)\<close> files, the oldest by parsed timestamp, and leaves the others;
  with \<open>keep = 0\<close> it deletes all of them. The scoped pass, for a plain module name, orders
  by modification time: over \<open>n\<close> matched files with readable, distinct modification times
  and \<open>keep \<ge> 1\<close> it deletes exactly \<open>max(0, n - keep)\<close> files, the oldest by modification
  time.
\<close>

theorem pass_deletes_the_oldest:
  fixes ft :: "posix_time \<Rightarrow> datetime" and d :: directory and log_dir mname :: string
  defines "G \<equiv> glob_glob d log_dir ''*.log''"
    and "S \<equiv> glob_glob d log_dir (mname @ ''_*.log'')"
  assumes wf: "wf_dir d" and rm: "all_removable d" and k0: "0 \<le> keep"
    and dir: "plain_dir log_dir"
  shows
    "(all_parseable G \<longrightarrow> distinct (map parsed G) \<longrightarrow>
        (case purge_old_logs_global ft log_dir keep d of
           (deleted, d') \<Rightarrow>
             int (length deleted) = max 0 (int (length G) - keep) \<and>
             oldest_cut parsed G deleted \<and>
             (keep = 0 \<longrightarrow> set deleted = set G) \<and>
             files d' = filter (\<lambda>f. path_join log_dir (fname f) \<notin> set deleted) (files d))) \<and>
     (plain_name mname \<longrightarrow> 1 \<le> keep \<longrightarrow> list_all (readable d) S \<longrightarrow>
      distinct (map (the_mtime d) S) \<longrightarrow>
        (case purge_old_timestamped_logs mname log_dir keep d of
           (r, d') \<Rightarrow>
             (\<exists>deleted. r = Inr deleted \<and>
                int (length deleted) = max 0 (int (length S) - keep) \<and>
                oldest_cut (the_mtime d) S deleted \<and>
                files d' = filter (\<lambda>f. path_join log_dir (fname f) \<notin> set deleted) (files d))))"
proof (intro conjI impI)
  assume par: "all_parseable G" and dist: "distinct (map parsed G)"
  let ?K = "sort_key_of ft d"
  let ?C = "global_candidates ft log_dir keep d"
  have agree: "?K p = parsed p" if "p \<in> set G" for p
    using par that by (auto simp add: all_parseable_def list_all_iff intro: sort_key_of_parsed)
  have "map ?K G = map parsed G" by (rule map_cong[OF refl]) (rule agree)
  then have dK: "distinct (map ?K G)" using dist by (simp only:)
  have C: "?C = take (nat (int (length G) - keep)) (sort_key ?K G)"
    by (simp add: global_candidates_take G_def)
  have cut: "oldest_cut parsed G ?C"
    unfolding C by (rule oldest_cut_cong[OF take_sort_key_oldest[OF dK]]) (rule agree)
  have len: "int (length ?C) = max 0 (int (length G) - keep)"
    unfolding C using k0 by simp
  have all: "set ?C = set G" if "keep = 0"
    unfolding C using that by simp
  show "case purge_old_logs_global ft log_dir keep d of
           (deleted, d') \<Rightarrow>
             int (length deleted) = max 0 (int (length G) - keep) \<and>
             oldest_cut parsed G deleted \<and>
             (keep = 0 \<longrightarrow> set deleted = set G) \<and>
             files d' = filter (\<lambda>f. path_join log_dir (fname f) \<notin> set deleted) (files d)"
    unfolding global_pass_all_removable[OF wf rm] using cut len all by simp
next
  assume k1: "1 \<le> keep" and rd: "list_all (readable d) S" and dist: "distinct (map (the_mtime d) S)"
  let ?C = "scoped_candidates mname log_dir keep d"
  have C: "?C = take (nat (int (length S) - keep)) (sort_key (the_mtime d) S)"
    using scoped_candidates_take[OF k1] by (simp add: S_def)
  have cut: "oldest_cut (the_mtime d) S ?C"
    unfolding C by (rule take_sort_key_oldest[OF dist])
  have len: "int (length ?C) = max 0 (int (length S) - keep)"
    unfolding C using k1 by simp
  show "case purge_old_timestamped_logs mname log_dir keep d of
           (r, d') \<Rightarrow>
             (\<exists>deleted. r = Inr deleted \<and>
                int (length deleted) = max 0 (int (length S) - keep) \<and>
                oldest_cut (the_mtime d) S deleted \<and>
                files d' = filter (\<lambda>f. path_join log_dir (fname f) \<notin> set deleted) (files d))"
    unfolding scoped_pass_all_removable[OF wf rm rd[unfolded S_def]] using cut len by simp
qed

lemmas prop_eval = all_parseable_def all_removable_def parsed_def oldest_cut_def

theorem pass_deletes_the_oldest_witness:
  "wf_dir swapped_dir \<and> all_removable swapped_dir \<and> (0::int) \<le> 1 \<and>
   plain_dir ''logs'' \<and> plain_name ''svc'' \<and>
   all_parseable (glob_glob swapped_dir ''logs'' ''*.log'') \<and>
   distinct (map parsed (glob_glob swapped_dir ''logs'' ''*.log'')) \<and>
   list_all (readable swapped_dir) (glob_glob swapped_dir ''logs'' (''svc'' @ ''_*.log'')) \<and>
   distinct (map (the_mtime swapped_dir) (glob_glob swapped_dir ''logs'' (''svc'' @ ''_*.log''))) \<and>
   purge_old_logs_global utc_1970 ''logs'' 1 swapped_dir =
     ([''logs/svc_2024-01-01_00-00-00.log''],
      present [\<lparr>fname = ''svc_2024-01-02_00-00-00.log'', mtime = Some 10, removable = True\<rparr>]) \<and>
   purge_old_timestamped_logs ''svc'' ''logs'' 1 swapped_dir =
     (Inr [''logs/svc_2024-01-02_00-00-00.log''],
      present [\<lparr>fname = ''svc_2024-01-01_00-00-00.log'', mtime = Some 20, removable = True\<rparr>])"
proof -
  have h: "wf_dir swapped_dir" "all_removable swapped_dir" "(0::int) \<le> 1" "plain_dir ''logs''"
    by (simp_all add: swapped_dir_def dir_eval prop_eval scope_eval)
  have g: "all_parseable (glob_glob swapped_dir ''logs'' ''*.log'')"
    "distinct (map parsed (glob_glob swapped_dir ''logs'' ''*.log''))"
    by (simp_all add: swapped_dir_def dir_eval prop_eval parse_eval)
  have s: "list_all (readable swapped_dir) (glob_glob swapped_dir ''logs'' (''svc'' @ ''_*.log''))"
    "distinct (map (the_mtime swapped_dir) (glob_glob swapped_dir ''logs'' (''svc'' @ ''_*.log'')))"
    by (simp_all add: swapped_dir_def dir_eval basename_def)
  have e1: "purge_old_logs_global utc_1970 ''logs'' 1 swapped_dir =
     ([''logs/svc_2024-01-01_00-00-00.log''],
      present [\<lparr>fname = ''svc_2024-01-02_00-00-00.log'', mtime = Some 10, removable = True\<rparr>])"
    by (simp add: swapped_dir_def pass_eval)
  have e2: "purge_old_timestamped_logs ''svc'' ''logs'' 1 swapped_dir =
     (Inr [''logs/svc_2024-01-02_00-00-00.log''],
      present [\<lparr>fname = ''svc_2024-01-01_00-00-00.log'', mtime = Some 20, removable = True\<rparr>])"
    by (simp add: swapped_dir_def pass_eval)
  show ?thesis
    using pass_deletes_the_oldest[OF h, where ft = utc_1970 and mname = "''svc''"]
      h g s e1 e2 example_scope(1)
    by simp
qed

text \<open>
  C1 as stated fails for the scoped pass. Two files with distinct parseable file-name
  timestamps, every removal succeeding: with \<open>keep = 1\<close> the pass deletes the file whose name
  carries the newer timestamp, since its modification time is the older one, and with
  \<open>keep = 0\<close> it deletes nothing, since \<^verbatim>\<open>files[:-0]\<close> is empty.
\<close>

theorem scoped_pass_not_by_name_timestamp:
  "parsed ''logs/svc_2024-01-01_00-00-00.log'' < parsed ''logs/svc_2024-01-02_00-00-00.log'' \<and>
   glob_glob swapped_dir ''logs'' (''svc'' @ ''_*.log'') =
     [''logs/svc_2024-01-01_00-00-00.log'', ''logs/svc_2024-01-02_00-00-00.log''] \<and>
   all_parseable (glob_glob swapped_dir ''logs'' (''svc'' @ ''_*.log'')) \<and>
   all_removable swapped_dir \<and>
   fst (purge_old_timestamped_logs ''svc'' ''logs'' 1 swapped_dir) =
     Inr [''logs/svc_2024-01-02_00-00-00.log''] \<and>
   fst (purge_old_timestamped_logs ''svc'' ''logs'' 0 swapped_dir) = Inr []"
  by (simp add: swapped_dir_def pass_eval prop_eval)

subsection \<open>Order of the candidates\<close>

lemma scoped_candidates_is_take:
  "\<exists>j. scoped_candidates m log_dir keep d =
         take j (sort_key (the_mtime d) (glob_glob d log_dir (m @ ''_*.log'')))"
proof (cases "int (length (glob_glob d log_dir (m @ ''_*.log''))) > keep")
  case True
  then show ?thesis by (auto simp add: scoped_candidates_def Let_def slice_to_def)
next
  case False
  then have "scoped_candidates m log_dir keep d =
      take 0 (sort_key (the_mtime d) (glob_glob d log_dir (m @ ''_*.log'')))"
    by (simp add: scoped_candidates_def Let_def)
  then show ?thesis by blast
qed

lemma sorted_take_sort_key: "sorted (map k (take j (sort_key k xs)))"
  by (metis sorted_sort_key sorted_wrt_take take_map)

lemma stable_take_sort_key:
  "prefix (filter (\<lambda>p. k p = v) (take j (sort_key k xs))) (filter (\<lambda>p. k p = v) xs)"
proof -
  have "filter (\<lambda>p. k p = v) (take j (sort_key k xs)) @ filter (\<lambda>p. k p = v) (drop j (sort_key k xs))
          = filter (\<lambda>p. k p = v) (sort_key k xs)"
    by (metis append_take_drop_id filter_append)
  also have "\<dots> = filter (\<lambda>p. k p = v) xs" by (rule sort_key_stable)
  finally show ?thesis by (metis prefixI)
qed

lemma find_unique_name:
  assumes dist: "distinct (map fname xs)" and eq: "mset xs = mset ys"
  shows "find (\<lambda>f. fname f = n) xs = find (\<lambda>f. fname f = n) ys"
proof -
  have set_eq: "set xs = set ys" using eq by (rule mset_eq_setD)
  have dist': "distinct (map fname ys)"
    using dist eq by (metis mset_map mset_eq_imp_distinct_iff)
  have inj: "inj_on fname (set xs)" using dist by (simp add: distinct_map)
  have uniq: "find (\<lambda>f. fname f = n) zs = (if \<exists>f\<in>set zs. fname f = n then Some (THE f. f \<in> set zs \<and> fname f = n) else None)"
    if "inj_on fname (set zs)" for zs
  proof (cases "find (\<lambda>f. fname f = n) zs")
    case None
    then show ?thesis by (auto simp add: find_None_iff)
  next
    case (Some g)
    then have g: "g \<in> set zs" "fname g = n" by (auto simp add: find_Some_iff)
    then have "(THE f. f \<in> set zs \<and> fname f = n) = g"
      using that by (intro the_equality) (auto simp add: inj_on_def)
    with Some g show ?thesis by auto
  qed
  show ?thesis using uniq[of xs] uniq[of ys] inj by (simp add: set_eq)
qed

lemma same_files_lookup:
  "wf_dir d \<Longrightarrow> same_files d d' \<Longrightarrow> lookup d' p = lookup d p"
  unfolding lookup_def same_files_def wf_dir_def
  by (rule find_unique_name[symmetric]) auto

lemma same_files_glob:
  "same_files d d' \<Longrightarrow> mset (glob_glob d' log_dir pat) = mset (glob_glob d log_dir pat)"
  by (simp add: glob_glob_def same_files_def)

lemma same_files_getmtime:
  "wf_dir d \<Longrightarrow> same_files d d' \<Longrightarrow> getmtime d' p = getmtime d p"
  by (simp add: getmtime_def same_files_lookup)

lemma same_files_sort_key_of:
  "wf_dir d \<Longrightarrow> same_files d d' \<Longrightarrow> sort_key_of ft d' = sort_key_of ft d"
  by (rule ext) (simp add: sort_key_of_def same_files_getmtime split: option.splits)

lemma same_files_the_mtime:
  "wf_dir d \<Longrightarrow> same_files d d' \<Longrightarrow> the_mtime d' = the_mtime d"
  by (rule ext) (simp add: the_mtime_def same_files_getmtime)

lemma same_files_readable:
  "wf_dir d \<Longrightarrow> same_files d d' \<Longrightarrow> readable d' = readable d"
  by (rule ext) (simp add: readable_def same_files_getmtime)

lemma same_files_can_remove:
  "wf_dir d \<Longrightarrow> same_files d d' \<Longrightarrow> can_remove d' = can_remove d"
  by (rule ext) (simp add: can_remove_def same_files_lookup)

lemma same_files_wf: "wf_dir d \<Longrightarrow> same_files d d' \<Longrightarrow> wf_dir d'"
  unfolding wf_dir_def same_files_def
  by (metis mset_map mset_eq_imp_distinct_iff mset_eq_setD)

lemma sort_key_relisted:
  assumes "mset xs' = mset xs" and "distinct (map k xs)"
  shows "sort_key k xs' = sort_key k xs"
proof (rule sort_key_inj_key_eq)
  show "mset xs' = mset (sort_key k xs)" using assms(1) by simp
  show "inj_on k (set xs')" using assms by (metis distinct_map mset_eq_setD)
  show "sorted (map k (sort_key k xs))" by (rule sorted_sort_key)
qed

lemma global_candidates_relisted:
  assumes wf: "wf_dir d" and sf: "same_files d d'"
    and dist: "distinct (map (sort_key_of ft d) (glob_glob d log_dir ''*.log''))"
  shows "global_candidates ft log_dir keep d' = global_candidates ft log_dir keep d"
proof -
  have m: "mset (glob_glob d' log_dir ''*.log'') = mset (glob_glob d log_dir ''*.log'')"
    using sf by (rule same_files_glob)
  then have l: "length (glob_glob d' log_dir ''*.log'') = length (glob_glob d log_dir ''*.log'')"
    by (rule mset_eq_length)
  show ?thesis
    unfolding global_candidates_take same_files_sort_key_of[OF wf sf] l
    by (simp only: sort_key_relisted[OF m dist])
qed

lemma scoped_candidates_relisted:
  assumes wf: "wf_dir d" and sf: "same_files d d'"
    and dist: "distinct (map (the_mtime d) (glob_glob d log_dir (m @ ''_*.log'')))"
  shows "scoped_candidates m log_dir keep d' = scoped_candidates m log_dir keep d"
proof -
  have m: "mset (glob_glob d' log_dir (m @ ''_*.log'')) = mset (glob_glob d log_dir (m @ ''_*.log''))"
    using sf by (rule same_files_glob)
  show ?thesis
    unfolding scoped_candidates_def same_files_the_mtime[OF wf sf]
    by (simp only: sort_key_relisted[OF m dist])
qed

text \<open>
  C7, as amended. Each pass is the deletion loop over its candidates; the candidates are
  sorted ascending by sort key, and the sort is stable: candidates with equal keys stand in
  the order of the directory listing (no file name is compared). When the keys of the
  matched files are pairwise distinct, the candidates and the returned list are the same
  for every order in which the directory lists the same files. The global pass is the one
  called with a plain directory name on a directory of ASCII file names where timestamp 0
  can be converted; the scoped pass the one called with a plain module and directory name.
\<close>

theorem candidates_sorted_and_stable:
  fixes ft :: "posix_time \<Rightarrow> datetime" and d d' :: directory and log_dir mname :: string
    and keep :: int
  defines "G \<equiv> glob_glob d log_dir ''*.log''"
    and "K \<equiv> sort_key_of ft d"
    and "C \<equiv> global_candidates ft log_dir keep d"
    and "S \<equiv> glob_glob d log_dir (mname @ ''_*.log'')"
    and "M \<equiv> the_mtime d"
    and "T \<equiv> scoped_candidates mname log_dir keep d"
  assumes dir: "plain_dir log_dir"
  shows
    "(ascii_names d \<longrightarrow> valid_datetime (ft 0) \<longrightarrow>
        purge_old_logs_global ft log_dir keep d = remove_each C [] d \<and>
        sorted (map K C) \<and>
        prefix (filter (\<lambda>p. K p = k) C) (filter (\<lambda>p. K p = k) G) \<and>
        (wf_dir d \<longrightarrow> same_files d d' \<longrightarrow> distinct (map K G) \<longrightarrow>
           global_candidates ft log_dir keep d' = C \<and>
           fst (purge_old_logs_global ft log_dir keep d') = fst (purge_old_logs_global ft log_dir keep d))) \<and>
     (plain_name mname \<longrightarrow>
        (list_all (readable d) S \<longrightarrow>
           purge_old_timestamped_logs mname log_dir keep d =
             (Inr (fst (remove_each T [] d)), snd (remove_each T [] d))) \<and>
        sorted (map M T) \<and>
        prefix (filter (\<lambda>p. M p = v) T) (filter (\<lambda>p. M p = v) S) \<and>
        (wf_dir d \<longrightarrow> same_files d d' \<longrightarrow> list_all (readable d) S \<longrightarrow> distinct (map M S) \<longrightarrow>
           scoped_candidates mname log_dir keep d' = T \<and>
           fst (purge_old_timestamped_logs mname log_dir keep d') =
             fst (purge_old_timestamped_logs mname log_dir keep d)))"
proof -
  have a1: "purge_old_logs_global ft log_dir keep d = remove_each C [] d"
    unfolding C_def by (rule purge_old_logs_global_loop)
  have a2: "sorted (map K C)"
    unfolding C_def K_def global_candidates_take by (rule sorted_take_sort_key)
  have a3: "prefix (filter (\<lambda>p. K p = k) C) (filter (\<lambda>p. K p = k) G)"
    unfolding C_def K_def G_def global_candidates_take by (rule stable_take_sort_key)
  have a4: "global_candidates ft log_dir keep d' = C \<and>
        fst (purge_old_logs_global ft log_dir keep d') = fst (purge_old_logs_global ft log_dir keep d)"
    if wf: "wf_dir d" and sf: "same_files d d'" and dist: "distinct (map K G)"
  proof -
    have c: "global_candidates ft log_dir keep d' = C"
      unfolding C_def using dist unfolding K_def G_def by (rule global_candidates_relisted[OF wf sf])
    then show ?thesis
      by (simp add: purge_old_logs_global_result[OF wf] C_def
            purge_old_logs_global_result[OF same_files_wf[OF wf sf]] same_files_can_remove[OF wf sf])
  qed
  have b1: "purge_old_timestamped_logs mname log_dir keep d =
          (Inr (fst (remove_each T [] d)), snd (remove_each T [] d))" if "list_all (readable d) S"
    using that unfolding S_def T_def by (rule purge_old_timestamped_logs_loop)
  obtain j where j: "T = take j (sort_key M S)"
    unfolding T_def M_def S_def using scoped_candidates_is_take by blast
  have b2: "sorted (map M T)" unfolding j by (rule sorted_take_sort_key)
  have b3: "prefix (filter (\<lambda>p. M p = v) T) (filter (\<lambda>p. M p = v) S)"
    unfolding j by (rule stable_take_sort_key)
  have b4: "scoped_candidates mname log_dir keep d' = T \<and>
        fst (purge_old_timestamped_logs mname log_dir keep d') =
          fst (purge_old_timestamped_logs mname log_dir keep d)"
    if wf: "wf_dir d" and sf: "same_files d d'" and rd: "list_all (readable d) S"
      and dist: "distinct (map M S)"
  proof -
    have c: "scoped_candidates mname log_dir keep d' = T"
      unfolding T_def using dist unfolding M_def S_def by (rule scoped_candidates_relisted[OF wf sf])
    have "set (glob_glob d' log_dir (mname @ ''_*.log'')) = set S"
      unfolding S_def using same_files_glob[OF sf] by (rule mset_eq_setD)
    with rd have rd': "list_all (readable d') (glob_glob d' log_dir (mname @ ''_*.log''))"
      by (simp add: list_all_iff same_files_readable[OF wf sf])
    show ?thesis
      using c rd
      by (simp add: purge_old_timestamped_logs_result[OF wf] T_def S_def
            purge_old_timestamped_logs_result[OF same_files_wf[OF wf sf] rd']
            same_files_can_remove[OF wf sf])
  qed
  from a1 a2 a3 a4 b1 b2 b3 b4 show ?thesis by blast
qed

theorem candidates_sorted_and_stable_witness:
  "plain_dir ''logs'' \<and> ascii_names swapped_dir \<and> valid_datetime (utc_1970 0) \<and> plain_name ''svc'' \<and>
   wf_dir swapped_dir \<and> same_files swapped_dir swapped_dir_relisted \<and>
   distinct (map (sort_key_of utc_1970 swapped_dir) (glob_glob swapped_dir ''logs'' ''*.log'')) \<and>
   list_all (readable swapped_dir) (glob_glob swapped_dir ''logs'' (''svc'' @ ''_*.log'')) \<and>
   distinct (map (the_mtime swapped_dir) (glob_glob swapped_dir ''logs'' (''svc'' @ ''_*.log''))) \<and>
   global_candidates utc_1970 ''logs'' 1 swapped_dir = [''logs/svc_2024-01-01_00-00-00.log''] \<and>
   global_candidates utc_1970 ''logs'' 1 swapped_dir_relisted = [''logs/svc_2024-01-01_00-00-00.log''] \<and>
   fst (purge_old_logs_global utc_1970 ''logs'' 1 swapped_dir_relisted) =
     fst (purge_old_logs_global utc_1970 ''logs'' 1 swapped_dir) \<and>
   scoped_candidates ''svc'' ''logs'' 1 swapped_dir = [''logs/svc_2024-01-02_00-00-00.log''] \<and>
   scoped_candidates ''svc'' ''logs'' 1 swapped_dir_relisted = [''logs/svc_2024-01-02_00-00-00.log''] \<and>
   fst (purge_old_timestamped_logs ''svc'' ''logs'' 1 swapped_dir_relisted) =
     fst (purge_old_timestamped_logs ''svc'' ''logs'' 1 swapped_dir)"
proof -
  have h1: "wf_dir swapped_dir"
    by (simp add: swapped_dir_def dir_eval)
  have sc: "ascii_names swapped_dir"
    by (simp add: swapped_dir_def scope_eval)
  have h2: "same_files swapped_dir swapped_dir_relisted"
    by (simp add: swapped_dir_def swapped_dir_relisted_def present_def same_files_def)
  have h3: "distinct (map (sort_key_of utc_1970 swapped_dir) (glob_glob swapped_dir ''logs'' ''*.log''))"
    by (simp add: swapped_dir_def dir_eval sort_key_of_def fromtimestamp_def parse_eval)
  have h4: "list_all (readable swapped_dir) (glob_glob swapped_dir ''logs'' (''svc'' @ ''_*.log''))"
    "distinct (map (the_mtime swapped_dir) (glob_glob swapped_dir ''logs'' (''svc'' @ ''_*.log'')))"
    by (simp_all add: swapped_dir_def dir_eval basename_def)
  have e1: "global_candidates utc_1970 ''logs'' 1 swapped_dir = [''logs/svc_2024-01-01_00-00-00.log'']"
    by (simp add: swapped_dir_def dir_eval global_candidates_def sort_key_of_def fromtimestamp_def
          parse_eval)
  have e2: "scoped_candidates ''svc'' ''logs'' 1 swapped_dir = [''logs/svc_2024-01-02_00-00-00.log'']"
    by (simp add: swapped_dir_def dir_eval scoped_candidates_def basename_def)
  show ?thesis
    using candidates_sorted_and_stable[OF example_scope(2), where ft = utc_1970 and keep = 1
        and d = swapped_dir and d' = swapped_dir_relisted and mname = "''svc''"]
      h1 h2 h3 h4 e1 e2 sc example_scope
    by simp
qed

text \<open>
  C7 as stated fails: a tie is not broken by file name. Two files whose names carry the same
  timestamp, \<open>keep = 1\<close>: the global pass deletes whichever of the two the directory
  lists first, so the same files listed in the other order lose the other file.
\<close>

theorem tie_follows_listing_order:
  "files tie_dir_relisted = rev (files tie_dir) \<and>
   sort_key_of utc_1970 tie_dir ''logs/a_2024-01-01_00-00-00.log'' =
     sort_key_of utc_1970 tie_dir ''logs/b_2024-01-01_00-00-00.log'' \<and>
   fst (purge_old_logs_global utc_1970 ''logs'' 1 tie_dir) = [''logs/a_2024-01-01_00-00-00.log''] \<and>
   fst (purge_old_logs_global utc_1970 ''logs'' 1 tie_dir_relisted) = [''logs/b_2024-01-01_00-00-00.log'']"
  by (simp add: tie_dir_def tie_dir_relisted_def pass_eval)

subsection \<open>The twelve-session example\<close>

lemma parse_path_join:
  "CHR ''/'' \<notin> set n \<Longrightarrow>
   parse_timestamp_from_filename (path_join a n) =
     (case re_search n of None \<Rightarrow> None | Some ts \<Rightarrow> strptime ts)"
  by (simp add: parse_timestamp_from_filename_def basename_path_join)

lemmas name_eval = re_search_def TIMESTAMP_RE_def TIMESTAMP_FMT_def strptime_def is_digit_def
  digits_def digit_val_def valid_datetime_def days_in_month_def is_leap_def Let_def

lemma twelve_keys:
  "map (sort_key_of ft d) (map (path_join log_dir) twelve_sessions) =
     [(2024, 1, 1, 0, 0, 0, 0), (2024, 1, 2, 0, 0, 0, 0), (2024, 1, 3, 0, 0, 0, 0),
      (2024, 1, 4, 0, 0, 0, 0), (2024, 1, 5, 0, 0, 0, 0), (2024, 1, 6, 0, 0, 0, 0),
      (2024, 1, 7, 0, 0, 0, 0), (2024, 1, 8, 0, 0, 0, 0), (2024, 1, 9, 0, 0, 0, 0),
      (2024, 1, 10, 0, 0, 0, 0), (2024, 1, 11, 0, 0, 0, 0), (2024, 1, 12, 0, 0, 0, 0)]"
  by (simp add: twelve_sessions_def sort_key_of_def parse_path_join name_eval)

lemma twelve_match:
  "n \<in> set twelve_sessions \<Longrightarrow>
     fnmatch n ''*.log'' \<and> fnmatch n (''svc'' @ ''_*.log'') \<and> \<not> ishidden n \<and> CHR ''/'' \<notin> set n"
  by (auto simp add: twelve_sessions_def ishidden_def)

lemma twelve_distinct: "distinct twelve_sessions"
  by (simp add: twelve_sessions_def)

lemma twelve_listing:
  assumes names: "mset (map fname (files d)) = mset twelve_sessions" and pres: "dir_present d"
  shows "wf_dir d"
    and "mset (glob_glob d log_dir ''*.log'') = mset (map (path_join log_dir) twelve_sessions)"
    and "mset (glob_glob d log_dir (''svc'' @ ''_*.log'')) = mset (map (path_join log_dir) twelve_sessions)"
proof -
  have set_eq: "set (map fname (files d)) = set twelve_sessions"
    using names by (rule mset_eq_setD)
  have "distinct (map fname (files d))"
    using names twelve_distinct by (metis mset_eq_imp_distinct_iff)
  moreover have "CHR ''/'' \<notin> set (fname f)" if "f \<in> set (files d)" for f
  proof -
    have "fname f \<in> set (map fname (files d))" using that by simp
    then show ?thesis using twelve_match unfolding set_eq by blast
  qed
  ultimately show "wf_dir d" by (simp add: wf_dir_def)
  have all: "filter (\<lambda>n. fnmatch n pat \<and> (ishidden pat \<or> \<not> ishidden n)) (map fname (files d)) =
             map fname (files d)"
    if "\<And>n. n \<in> set twelve_sessions \<Longrightarrow> fnmatch n pat" for pat
    by (rule filter_all) (use that twelve_match set_eq in blast)
  have "glob_glob d log_dir pat = map (path_join log_dir) (map fname (files d))"
    if "\<And>n. n \<in> set twelve_sessions \<Longrightarrow> fnmatch n pat" and "CHR ''/'' \<notin> set pat" for pat
    using pres that(2) by (simp only: glob_glob_def all[OF that(1)] simp_thms if_False)
  then have "mset (glob_glob d log_dir pat) = mset (map (path_join log_dir) twelve_sessions)"
    if "\<And>n. n \<in> set twelve_sessions \<Longrightarrow> fnmatch n pat" and "CHR ''/'' \<notin> set pat" for pat
    using that names by (metis mset_map)
  from this[of "''*.log''"] this[of "''svc'' @ ''_*.log''"]
  show "mset (glob_glob d log_dir ''*.log'') = mset (map (path_join log_dir) twelve_sessions)"
    and "mset (glob_glob d log_dir (''svc'' @ ''_*.log'')) = mset (map (path_join log_dir) twelve_sessions)"
    using twelve_match by simp_all
qed

lemma sort_key_known:
  assumes "mset xs = mset ys" and "sorted_wrt (<) (map k ys)"
  shows "sort_key k xs = ys"
proof (rule sort_key_inj_key_eq[OF assms(1)])
  from assms(2) have sd: "sorted (map k ys)" "distinct (map k ys)"
    by (simp_all add: strict_sorted_iff)
  show "sorted (map k ys)" by (rule sd(1))
  have "set xs = set ys" using assms(1) by (rule mset_eq_setD)
  then show "inj_on k (set xs)" using sd(2) by (simp add: distinct_map)
qed

lemma twelve_global:
  assumes names: "mset (map fname (files d)) = mset twelve_sessions" and pres: "dir_present d"
  shows "global_candidates ft log_dir 10 d = map (path_join log_dir) (take 2 twelve_sessions)"
proof -
  have "sorted_wrt (<) (map (sort_key_of ft d) (map (path_join log_dir) twelve_sessions))"
    unfolding twelve_keys by simp
  from sort_key_known[OF twelve_listing(2)[OF names pres] this]
  have "sort_key (sort_key_of ft d) (glob_glob d log_dir ''*.log'') =
          map (path_join log_dir) twelve_sessions" .
  moreover have "length (glob_glob d log_dir ''*.log'') = 12"
    using mset_eq_length[OF twelve_listing(2)[OF names pres, of log_dir]]
    by (simp add: twelve_sessions_def)
  ultimately show ?thesis
    by (simp add: global_candidates_take take_map)
qed

lemma twelve_scoped:
  assumes names: "mset (map fname (files d)) = mset twelve_sessions" and pres: "dir_present d"
    and inc: "sorted_wrt (<) (map (the_mtime d) (map (path_join log_dir) twelve_sessions))"
  shows "scoped_candidates ''svc'' log_dir 10 d = map (path_join log_dir) (take 2 twelve_sessions)"
proof -
  from sort_key_known[OF twelve_listing(3)[OF names pres] inc]
  have "sort_key (the_mtime d) (glob_glob d log_dir (''svc'' @ ''_*.log'')) =
          map (path_join log_dir) twelve_sessions" .
  moreover have "length (glob_glob d log_dir (''svc'' @ ''_*.log'')) = 12"
    using mset_eq_length[OF twelve_listing(3)[OF names pres, of log_dir]]
    by (simp add: twelve_sessions_def)
  ultimately show ?thesis
    using scoped_candidates_take[of 10 "''svc''" log_dir d]
    by (simp add: take_map)
qed

text \<open>
  C6, as amended. A pass called with a plain directory name returns the paths it removed,
  in the order it removed them: the list is sorted by the pass's sort key, oldest first, it
  is part of the glob result, and the directory afterwards holds exactly the files that are
  not in the list (for the global pass on a directory of ASCII file names where timestamp 0
  can be converted, for the scoped pass with a plain module name). With \<open>keep = 10\<close>, every
  removal succeeding and a directory that holds exactly the twelve files
  \<open>svc_2024-01-01_00-00-00.log\<close> to \<open>svc_2024-01-12_00-00-00.log\<close>, in any listing order, the
  global pass returns the two earliest, \<open>01\<close> before \<open>02\<close>; the scoped pass for \<open>svc\<close> does so
  when the modification times are readable and increase with the dates in the names.
\<close>

theorem returned_list_in_deletion_order:
  fixes ft :: "posix_time \<Rightarrow> datetime" and d :: directory and log_dir mname :: string
  defines "S \<equiv> glob_glob d log_dir (mname @ ''_*.log'')"
    and "Y \<equiv> map (path_join log_dir) twelve_sessions"
  assumes dir: "plain_dir log_dir"
  shows
    "(wf_dir d \<longrightarrow> ascii_names d \<longrightarrow> valid_datetime (ft 0) \<longrightarrow>
        (case purge_old_logs_global ft log_dir keep d of
           (deleted, d') \<Rightarrow>
             sorted (map (sort_key_of ft d) deleted) \<and>
             set deleted \<subseteq> set (glob_glob d log_dir ''*.log'') \<and>
             files d' = filter (\<lambda>f. path_join log_dir (fname f) \<notin> set deleted) (files d))) \<and>
     (wf_dir d \<longrightarrow> plain_name mname \<longrightarrow> list_all (readable d) S \<longrightarrow>
        (case purge_old_timestamped_logs mname log_dir keep d of
           (r, d') \<Rightarrow>
             (\<exists>deleted. r = Inr deleted \<and>
                sorted (map (the_mtime d) deleted) \<and>
                set deleted \<subseteq> set S \<and>
                files d' = filter (\<lambda>f. path_join log_dir (fname f) \<notin> set deleted) (files d)))) \<and>
     (mset (map fname (files d)) = mset twelve_sessions \<longrightarrow> dir_present d \<longrightarrow> all_removable d \<longrightarrow>
        fst (purge_old_logs_global ft log_dir 10 d) =
          map (path_join log_dir) [''svc_2024-01-01_00-00-00.log'', ''svc_2024-01-02_00-00-00.log'']) \<and>
     (mset (map fname (files d)) = mset twelve_sessions \<longrightarrow> dir_present d \<longrightarrow> all_removable d \<longrightarrow>
      list_all (readable d) Y \<longrightarrow> sorted_wrt (<) (map (the_mtime d) Y) \<longrightarrow>
        fst (purge_old_timestamped_logs ''svc'' log_dir 10 d) =
          Inr (map (path_join log_dir) [''svc_2024-01-01_00-00-00.log'', ''svc_2024-01-02_00-00-00.log'']))"
proof (intro conjI impI)
  assume wf: "wf_dir d"
  let ?C = "global_candidates ft log_dir keep d"
  let ?D = "filter (can_remove d) ?C"
  have "sorted (map (sort_key_of ft d) ?C)"
    unfolding global_candidates_take by (rule sorted_take_sort_key)
  then have srt: "sorted (map (sort_key_of ft d) ?D)" by (rule sorted_filter)
  have sub: "set ?D \<subseteq> set (glob_glob d log_dir ''*.log'')"
    using set_global_candidates[of ft log_dir keep d] by auto
  show "case purge_old_logs_global ft log_dir keep d of
           (deleted, d') \<Rightarrow>
             sorted (map (sort_key_of ft d) deleted) \<and>
             set deleted \<subseteq> set (glob_glob d log_dir ''*.log'') \<and>
             files d' = filter (\<lambda>f. path_join log_dir (fname f) \<notin> set deleted) (files d)"
    unfolding purge_old_logs_global_result[OF wf] using srt sub files_after_pass[OF wf sub] by simp
next
  assume wf: "wf_dir d" and rd: "list_all (readable d) S"
  let ?C = "scoped_candidates mname log_dir keep d"
  let ?D = "filter (can_remove d) ?C"
  obtain j where "?C = take j (sort_key (the_mtime d) S)"
    unfolding S_def using scoped_candidates_is_take by blast
  then have "sorted (map (the_mtime d) ?C)" by (simp only: sorted_take_sort_key)
  then have srt: "sorted (map (the_mtime d) ?D)" by (rule sorted_filter)
  have sub: "set ?D \<subseteq> set S"
    unfolding S_def using set_scoped_candidates[of mname log_dir keep d] by auto
  show "case purge_old_timestamped_logs mname log_dir keep d of
           (r, d') \<Rightarrow>
             (\<exists>deleted. r = Inr deleted \<and>
                sorted (map (the_mtime d) deleted) \<and>
                set deleted \<subseteq> set S \<and>
                files d' = filter (\<lambda>f. path_join log_dir (fname f) \<notin> set deleted) (files d))"
    unfolding purge_old_timestamped_logs_result[OF wf rd[unfolded S_def]]
    using srt sub files_after_pass[OF wf sub[unfolded S_def]] by simp
next
  assume names: "mset (map fname (files d)) = mset twelve_sessions" and pres: "dir_present d"
    and rm: "all_removable d"
  show "fst (purge_old_logs_global ft log_dir 10 d) =
          map (path_join log_dir) [''svc_2024-01-01_00-00-00.log'', ''svc_2024-01-02_00-00-00.log'']"
    unfolding global_pass_all_removable[OF twelve_listing(1)[OF names pres] rm]
      twelve_global[OF names pres]
    by (simp add: twelve_sessions_def)
next
  assume names: "mset (map fname (files d)) = mset twelve_sessions" and pres: "dir_present d"
    and rm: "all_removable d" and rd: "list_all (readable d) Y"
    and inc: "sorted_wrt (<) (map (the_mtime d) Y)"
  have "set (glob_glob d log_dir (''svc'' @ ''_*.log'')) = set Y"
    unfolding Y_def using twelve_listing(3)[OF names pres] by (rule mset_eq_setD)
  with rd have rd': "list_all (readable d) (glob_glob d log_dir (''svc'' @ ''_*.log''))"
    by (simp add: list_all_iff)
  show "fst (purge_old_timestamped_logs ''svc'' log_dir 10 d) =
          Inr (map (path_join log_dir) [''svc_2024-01-01_00-00-00.log'', ''svc_2024-01-02_00-00-00.log''])"
    unfolding scoped_pass_all_removable[OF twelve_listing(1)[OF names pres] rm rd']
      twelve_scoped[OF names pres inc[unfolded Y_def]]
    by (simp add: twelve_sessions_def)
qed

lemmas twelve_eval = twelve_dir_def twelve_sessions_def

theorem returned_list_in_deletion_order_witness:
  "plain_dir ''logs'' \<and> plain_name ''svc'' \<and> valid_datetime (utc_1970 0) \<and>
   ascii_names (twelve_dir [1, 2, 3, 4, 5, 6, 7, 8, 9, 10, 11, 12]) \<and>
   wf_dir (twelve_dir [1, 2, 3, 4, 5, 6, 7, 8, 9, 10, 11, 12]) \<and>
   list_all (readable (twelve_dir [1, 2, 3, 4, 5, 6, 7, 8, 9, 10, 11, 12]))
     (glob_glob (twelve_dir [1, 2, 3, 4, 5, 6, 7, 8, 9, 10, 11, 12]) ''logs'' (''svc'' @ ''_*.log'')) \<and>
   mset (map fname (files (twelve_dir [1, 2, 3, 4, 5, 6, 7, 8, 9, 10, 11, 12]))) = mset twelve_sessions \<and>
   dir_present (twelve_dir [1, 2, 3, 4, 5, 6, 7, 8, 9, 10, 11, 12]) \<and>
   all_removable (twelve_dir [1, 2, 3, 4, 5, 6, 7, 8, 9, 10, 11, 12]) \<and>
   list_all (readable (twelve_dir [1, 2, 3, 4, 5, 6, 7, 8, 9, 10, 11, 12]))
     (map (path_join ''logs'') twelve_sessions) \<and>
   sorted_wrt (<) (map (the_mtime (twelve_dir [1, 2, 3, 4, 5, 6, 7, 8, 9, 10, 11, 12]))
     (map (path_join ''logs'') twelve_sessions)) \<and>
   fst (purge_old_logs_global utc_1970 ''logs'' 10 (twelve_dir [1, 2, 3, 4, 5, 6, 7, 8, 9, 10, 11, 12])) =
     [''logs/svc_2024-01-01_00-00-00.log'', ''logs/svc_2024-01-02_00-00-00.log''] \<and>
   fst (purge_old_timestamped_logs ''svc'' ''logs'' 10 (twelve_dir [1, 2, 3, 4, 5, 6, 7, 8, 9, 10, 11, 12])) =
     Inr [''logs/svc_2024-01-01_00-00-00.log'', ''logs/svc_2024-01-02_00-00-00.log'']"
proof -
  let ?d = "twelve_dir [1, 2, 3, 4, 5, 6, 7, 8, 9, 10, 11, 12]"
  have h1: "wf_dir ?d" "dir_present ?d" "all_removable ?d"
    by (simp_all add: twelve_eval present_def wf_dir_def all_removable_def)
  have h2: "mset (map fname (files ?d)) = mset twelve_sessions"
    by (simp add: twelve_eval present_def)
  have sc: "ascii_names ?d"
    by (simp add: twelve_eval scope_eval)
  have h3: "list_all (readable ?d) (glob_glob ?d ''logs'' (''svc'' @ ''_*.log''))"
    by (simp add: twelve_eval dir_eval basename_def)
  have h4: "list_all (readable ?d) (map (path_join ''logs'') twelve_sessions)"
    by (simp add: twelve_eval dir_eval basename_def)
  have h5: "sorted_wrt (<) (map (the_mtime ?d) (map (path_join ''logs'') twelve_sessions))"
    by (simp add: twelve_eval dir_eval basename_def)
  have pj: "map (path_join ''logs'') [''svc_2024-01-01_00-00-00.log'', ''svc_2024-01-02_00-00-00.log''] =
      [''logs/svc_2024-01-01_00-00-00.log'', ''logs/svc_2024-01-02_00-00-00.log'']"
    by (simp add: path_join_def)
  show ?thesis
    using returned_list_in_deletion_order[OF example_scope(2), where ft = utc_1970 and d = ?d
        and mname = "''svc''" and keep = 10] h1 h2 h3 h4 h5 sc example_scope
    by (simp only: pj simp_thms)
qed

text \<open>
  C6 as stated fails for the scoped pass: the twelve files with modification times that
  decrease with the dates in their names, \<open>keep = 10\<close>. The pass returns the two files with
  the latest names, \<open>12\<close> before \<open>11\<close>, and not \<open>01\<close> and \<open>02\<close>.
\<close>

theorem scoped_pass_on_twelve_by_mtime:
  "map fname (files (twelve_dir [12, 11, 10, 9, 8, 7, 6, 5, 4, 3, 2, 1])) = twelve_sessions \<and>
   all_removable (twelve_dir [12, 11, 10, 9, 8, 7, 6, 5, 4, 3, 2, 1]) \<and>
   fst (purge_old_timestamped_logs ''svc'' ''logs'' 10 (twelve_dir [12, 11, 10, 9, 8, 7, 6, 5, 4, 3, 2, 1])) =
     Inr [''logs/svc_2024-01-12_00-00-00.log'', ''logs/svc_2024-01-11_00-00-00.log'']"
  by (simp add: twelve_eval pass_eval all_removable_def)

subsection \<open>Only names that end in \<^verbatim>\<open>.log\<close> are matched\<close>

lemma literal_Cons: "literal (c # s) = (c \<noteq> CHR ''*'' \<and> c \<noteq> CHR ''?'' \<and> literal s)"
  by (auto simp add: literal_def)

lemma literal_Nil: "literal []"
  by (simp add: literal_def)

lemma fnmatch_literal: "literal pat \<Longrightarrow> fnmatch n pat = (n = pat)"
proof (induction n pat rule: fnmatch.induct)
  case 1
  then show ?case by simp
next
  case (2 c n)
  then show ?case by simp
next
  case (3 p ps)
  then show ?case by (simp add: literal_Cons)
next
  case (4 c n p ps)
  from "4.prems" have l: "p \<noteq> CHR ''*''" "p \<noteq> CHR ''?''" "literal ps"
    by (simp_all add: literal_Cons)
  from "4.IH"(4)[OF l] have "fnmatch n ps = (n = ps)" .
  with l show ?case by auto
qed

lemma fnmatch_literal_suffix:
  "fnmatch n pat \<Longrightarrow> pat = p @ lit \<Longrightarrow> literal lit \<Longrightarrow> suffix lit n"
proof (induction n pat arbitrary: p rule: fnmatch.induct)
  case 1
  then show ?case by simp
next
  case (2 c n)
  then show ?case by simp
next
  case (3 q ps)
  show ?case
  proof (cases p)
    case Nil
    with "3.prems" have "literal (q # ps)" "fnmatch [] (q # ps)" by simp_all
    then show ?thesis by (simp add: literal_Cons)
  next
    case (Cons a p')
    with "3.prems" have "fnmatch [] ps" "ps = p' @ lit" by simp_all
    from "3.IH"[OF this "3.prems"(3)] show ?thesis .
  qed
next
  case (4 c n q ps)
  note m = "4.prems"(1) and pat = "4.prems"(2) and lit = "4.prems"(3)
  show ?case
  proof (cases p)
    case Nil
    with pat lit have "literal (q # ps)" by simp
    with m have "c # n = q # ps" by (simp only: fnmatch_literal)
    with Nil pat show ?thesis by simp
  next
    case (Cons a p')
    with pat have ps: "ps = p' @ lit" by simp
    show ?thesis
    proof (cases "q = CHR ''*''")
      case True
      with m have "fnmatch (c # n) ps \<or> fnmatch n (q # ps)" by simp
      then show ?thesis
      proof
        assume "fnmatch (c # n) ps"
        from "4.IH"(1)[OF True this ps lit] show ?thesis .
      next
        assume "fnmatch n (q # ps)"
        from "4.IH"(2)[OF True this pat lit] show ?thesis by (rule suffix_ConsI)
      qed
    next
      case False
      show ?thesis
      proof (cases "q = CHR ''?''")
        case True
        with False m have "fnmatch n ps" by simp
        from "4.IH"(3)[OF False True this ps lit] show ?thesis by (rule suffix_ConsI)
      next
        case q: False
        with False m have "fnmatch n ps" by simp
        from "4.IH"(4)[OF False q this ps lit] show ?thesis by (rule suffix_ConsI)
      qed
    qed
  qed
qed

lemma log_pattern_suffix:
  assumes "fnmatch n ''*.log'' \<or> fnmatch n (m @ ''_*.log'')"
  shows "suffix ''.log'' n"
proof -
  have lit: "literal ''.log''" by (simp add: literal_def)
  from assms show ?thesis
  proof
    assume "fnmatch n ''*.log''"
    from fnmatch_literal_suffix[OF this _ lit, of "''*''"] show ?thesis by simp
  next
    assume "fnmatch n (m @ ''_*.log'')"
    from fnmatch_literal_suffix[OF this _ lit, of "m @ ''_*''"] show ?thesis by simp
  qed
qed

lemma insort_key_cong_on:
  "(\<And>y. y \<in> insert x (set ys) \<Longrightarrow> f y = g y) \<Longrightarrow> insort_key f x ys = insort_key g x ys"
  by (induction ys) auto

lemma sort_key_cong_on:
  "(\<And>x. x \<in> set xs \<Longrightarrow> f x = g x) \<Longrightarrow> sort_key f xs = sort_key g xs"
proof (induction xs)
  case Nil
  then show ?case by simp
next
  case (Cons x xs)
  then have "sort_key f xs = sort_key g xs" by simp
  moreover have "insort_key f x (sort_key g xs) = insort_key g x (sort_key g xs)"
    by (rule insort_key_cong_on) (use Cons.prems in auto)
  ultimately show ?case by simp
qed

lemma only_logs_wf: "wf_dir d \<Longrightarrow> wf_dir (only_logs d)"
  by (auto simp add: wf_dir_def only_logs_def distinct_map_filter)

lemma only_logs_glob:
  assumes "pat = ''*.log'' \<or> pat = m @ ''_*.log''"
  shows "glob_glob (only_logs d) log_dir pat = glob_glob d log_dir pat"
proof -
  have "filter (\<lambda>n. fnmatch n pat \<and> (ishidden pat \<or> \<not> ishidden n))
          (map fname (filter (\<lambda>f. suffix ''.log'' (fname f)) (files d))) =
        filter (\<lambda>n. fnmatch n pat \<and> (ishidden pat \<or> \<not> ishidden n)) (map fname (files d))"
    unfolding filter_map filter_filter o_def
    by (rule arg_cong[where f = "map fname"], rule filter_cong[OF refl])
       (use assms log_pattern_suffix in blast)
  moreover have "files (only_logs d) = filter (\<lambda>f. suffix ''.log'' (fname f)) (files d)"
    and "dir_present (only_logs d) = dir_present d"
    by (simp_all add: only_logs_def)
  ultimately show ?thesis by (simp only: glob_glob_def)
qed

lemma only_logs_lookup:
  assumes "suffix ''.log'' (basename p)"
  shows "lookup (only_logs d) p = lookup d p"
proof -
  have "find (\<lambda>f. fname f = basename p) (filter (\<lambda>f. suffix ''.log'' (fname f)) (files d)) =
        find (\<lambda>f. fname f = basename p) (files d)"
    by (rule find_filter_implied) (use assms in simp)
  then show ?thesis by (simp add: lookup_def only_logs_def)
qed

lemma only_logs_on_glob:
  assumes wf: "wf_dir d" and pat: "pat = ''*.log'' \<or> pat = m @ ''_*.log''"
    and p: "p \<in> set (glob_glob d log_dir pat)"
  shows "lookup (only_logs d) p = lookup d p"
proof (rule only_logs_lookup)
  from glob_member_matches[OF wf p] pat show "suffix ''.log'' (basename p)"
    using log_pattern_suffix by blast
qed

lemma only_logs_global:
  assumes wf: "wf_dir d"
  shows "fst (purge_old_logs_global ft log_dir keep (only_logs d)) =
         fst (purge_old_logs_global ft log_dir keep d)"
proof -
  let ?G = "glob_glob d log_dir ''*.log''"
  have g: "glob_glob (only_logs d) log_dir ''*.log'' = ?G"
    by (rule only_logs_glob[where m = "[]"]) simp
  have lk: "lookup (only_logs d) p = lookup d p" if "p \<in> set ?G" for p
    by (rule only_logs_on_glob[OF wf _ that, where m = "[]"]) simp
  have "sort_key_of ft (only_logs d) p = sort_key_of ft d p" if "p \<in> set ?G" for p
    by (simp add: sort_key_of_def getmtime_def lk[OF that] split: option.splits)
  then have "sort_key (sort_key_of ft (only_logs d)) ?G = sort_key (sort_key_of ft d) ?G"
    by (rule sort_key_cong_on)
  then have c: "global_candidates ft log_dir keep (only_logs d) = global_candidates ft log_dir keep d"
    by (simp add: global_candidates_take g)
  have "filter (can_remove (only_logs d)) (global_candidates ft log_dir keep d) =
        filter (can_remove d) (global_candidates ft log_dir keep d)"
    by (rule filter_cong[OF refl])
       (use set_global_candidates[of ft log_dir keep d] lk in \<open>auto simp add: can_remove_def\<close>)
  then show ?thesis
    by (simp add: purge_old_logs_global_result[OF wf] purge_old_logs_global_result[OF only_logs_wf[OF wf]] c)
qed

lemma only_logs_scoped:
  assumes wf: "wf_dir d"
  shows "fst (purge_old_timestamped_logs m log_dir keep (only_logs d)) =
         fst (purge_old_timestamped_logs m log_dir keep d)"
proof -
  let ?S = "glob_glob d log_dir (m @ ''_*.log'')"
  have g: "glob_glob (only_logs d) log_dir (m @ ''_*.log'') = ?S"
    by (rule only_logs_glob[where m = m]) simp
  have lk: "lookup (only_logs d) p = lookup d p" if "p \<in> set ?S" for p
    by (rule only_logs_on_glob[OF wf _ that, where m = m]) simp
  have gm: "getmtime (only_logs d) p = getmtime d p" if "p \<in> set ?S" for p
    by (simp add: getmtime_def lk[OF that])
  have rd: "list_all (readable (only_logs d)) ?S = list_all (readable d) ?S"
    by (simp add: list_all_iff readable_def gm)
  show ?thesis
  proof (cases "list_all (readable d) ?S")
    case False
    then show ?thesis
      using purge_old_timestamped_logs_raises[of d log_dir m keep]
        purge_old_timestamped_logs_raises[of "only_logs d" log_dir m keep] rd
      by (simp add: g)
  next
    case True
    with rd have rd': "list_all (readable (only_logs d)) (glob_glob (only_logs d) log_dir (m @ ''_*.log''))"
      by (simp add: g)
    have "sort_key (the_mtime (only_logs d)) ?S = sort_key (the_mtime d) ?S"
      by (rule sort_key_cong_on) (simp add: the_mtime_def gm)
    then have c: "scoped_candidates m log_dir keep (only_logs d) = scoped_candidates m log_dir keep d"
      by (simp add: scoped_candidates_def g)
    have "filter (can_remove (only_logs d)) (scoped_candidates m log_dir keep d) =
          filter (can_remove d) (scoped_candidates m log_dir keep d)"
      by (rule filter_cong[OF refl])
         (use set_scoped_candidates[of m log_dir keep d] lk in \<open>auto simp add: can_remove_def\<close>)
    then show ?thesis
      by (simp add: purge_old_timestamped_logs_result[OF wf True]
            purge_old_timestamped_logs_result[OF only_logs_wf[OF wf] rd'] c)
  qed
qed

lemma unmatched_file_stays:
  assumes wf: "wf_dir d" and pat: "pat = ''*.log'' \<or> pat = m @ ''_*.log''"
    and sub: "set ps \<subseteq> set (glob_glob d log_dir pat)"
    and f: "f \<in> set (files d)" and nl: "\<not> suffix ''.log'' (fname f)"
  shows "f \<in> set (filter (\<lambda>g. fname g \<notin> basename ` set ps) (files d))"
proof -
  have "fname f \<notin> basename ` set ps"
  proof
    assume "fname f \<in> basename ` set ps"
    then obtain p where p: "p \<in> set ps" "basename p = fname f" by auto
    with sub have "fnmatch (fname f) pat" using glob_member_matches[OF wf, of p log_dir pat] by auto
    with pat nl log_pattern_suffix show False by blast
  qed
  with f show ?thesis by simp
qed

lemma non_log_file_stays:
  assumes wf: "wf_dir d" and f: "f \<in> set (files d)" and nl: "\<not> suffix ''.log'' (fname f)"
  shows "f \<in> set (files (snd (purge_old_logs_global ft log_dir keep d)))"
    and "f \<in> set (files (snd (purge_old_timestamped_logs m log_dir keep d)))"
proof -
  have "set (filter (can_remove d) (global_candidates ft log_dir keep d)) \<subseteq> set (glob_glob d log_dir ''*.log'')"
    using set_global_candidates[of ft log_dir keep d] by auto
  from unmatched_file_stays[OF wf _ this f nl, where m = "[]"]
  show "f \<in> set (files (snd (purge_old_logs_global ft log_dir keep d)))"
    by (simp add: purge_old_logs_global_result[OF wf])
  show "f \<in> set (files (snd (purge_old_timestamped_logs m log_dir keep d)))"
  proof (cases "list_all (readable d) (glob_glob d log_dir (m @ ''_*.log''))")
    case False
    then show ?thesis using f by (simp add: purge_old_timestamped_logs_raises)
  next
    case True
    have "set (filter (can_remove d) (scoped_candidates m log_dir keep d)) \<subseteq>
            set (glob_glob d log_dir (m @ ''_*.log''))"
      using set_scoped_candidates[of m log_dir keep d] by auto
    from unmatched_file_stays[OF wf _ this f nl, where m = m]
    show ?thesis by (simp add: purge_old_timestamped_logs_result[OF wf True])
  qed
qed

lemma digit_char_digit: "digit_char k \<in> set digits"
  unfolding digit_char_def by (rule nth_mem) (simp add: digits_def)

lemma rotation_suffix_last:
  "rotation_suffix wh dt \<noteq> [] \<and> last (rotation_suffix wh dt) \<in> set digits"
  by (cases dt) (simp add: rotation_suffix_def Let_def pad2_def digit_char_digit)

lemma rotation_not_log: "\<not> suffix ''.log'' (rotation_filename base wh dt)"
proof
  assume "suffix ''.log'' (rotation_filename base wh dt)"
  then obtain zs where "rotation_filename base wh dt = zs @ ''.log''" by (auto simp add: suffix_def)
  then have "last (rotation_filename base wh dt) = CHR ''g''" by simp
  moreover have "last (rotation_filename base wh dt) = last (rotation_suffix wh dt)"
    using rotation_suffix_last[of wh dt] by (simp add: rotation_filename_def)
  ultimately show False using rotation_suffix_last[of wh dt] by (simp add: digits_def)
qed

text \<open>
  C10. Every path either selector matches has a name that ends in \<^verbatim>\<open>.log\<close>. A file whose name
  does not end in \<^verbatim>\<open>.log\<close> is still in the directory after either pass, and it does not
  count: each pass returns the same list when these files are taken out of the directory
  first. The name of a rotated segment, the base name followed by a dot and the rotation
  date, does not end in \<^verbatim>\<open>.log\<close>, is matched by neither selector, and the file stays.
\<close>

theorem only_log_files_are_purged:
  assumes "wf_dir d"
  shows
    "(\<forall>p\<in>set (glob_glob d log_dir ''*.log'') \<union> set (glob_glob d log_dir (mname @ ''_*.log'')).
        suffix ''.log'' (basename p)) \<and>
     (\<forall>f\<in>set (files d). \<not> suffix ''.log'' (fname f) \<longrightarrow>
        f \<in> set (files (snd (purge_old_logs_global ft log_dir keep d))) \<and>
        f \<in> set (files (snd (purge_old_timestamped_logs mname log_dir keep d)))) \<and>
     fst (purge_old_logs_global ft log_dir keep (only_logs d)) =
       fst (purge_old_logs_global ft log_dir keep d) \<and>
     fst (purge_old_timestamped_logs mname log_dir keep (only_logs d)) =
       fst (purge_old_timestamped_logs mname log_dir keep d) \<and>
     \<not> suffix ''.log'' (rotation_filename base wh dt) \<and>
     \<not> fnmatch (rotation_filename base wh dt) ''*.log'' \<and>
     \<not> fnmatch (rotation_filename base wh dt) (mname @ ''_*.log'') \<and>
     (\<forall>f\<in>set (files d). fname f = rotation_filename base wh dt \<longrightarrow>
        f \<in> set (files (snd (purge_old_logs_global ft log_dir keep d))) \<and>
        f \<in> set (files (snd (purge_old_timestamped_logs mname log_dir keep d))))"
proof -
  have a: "suffix ''.log'' (basename p)"
    if "p \<in> set (glob_glob d log_dir ''*.log'') \<union> set (glob_glob d log_dir (mname @ ''_*.log''))" for p
    using that glob_member_matches[OF assms, of p log_dir] log_pattern_suffix[of "basename p" mname]
    by blast
  have b: "f \<in> set (files (snd (purge_old_logs_global ft log_dir keep d))) \<and>
        f \<in> set (files (snd (purge_old_timestamped_logs mname log_dir keep d)))"
    if "f \<in> set (files d)" "\<not> suffix ''.log'' (fname f)" for f
    using non_log_file_stays[OF assms that] by simp
  have r: "\<not> suffix ''.log'' (rotation_filename base wh dt)" by (rule rotation_not_log)
  have m: "\<not> fnmatch (rotation_filename base wh dt) ''*.log''"
     "\<not> fnmatch (rotation_filename base wh dt) (mname @ ''_*.log'')"
    using r log_pattern_suffix[of "rotation_filename base wh dt" mname] by blast+
  from a b r m only_logs_global[OF assms, of ft log_dir keep] only_logs_scoped[OF assms, of mname log_dir keep]
  show ?thesis by (metis (no_types))
qed

theorem only_log_files_are_purged_witness:
  "wf_dir rotated_dir \<and>
   rotation_filename ''svc_2024-01-01_00-00-00.log'' ''midnight'' (2024, 1, 2, 0, 0, 0, 0) =
     ''svc_2024-01-01_00-00-00.log.2024-01-02'' \<and>
   glob_glob rotated_dir ''logs'' ''*.log'' =
     [''logs/svc_2024-01-01_00-00-00.log'', ''logs/svc_2024-01-03_00-00-00.log''] \<and>
   glob_glob rotated_dir ''logs'' (''svc'' @ ''_*.log'') =
     [''logs/svc_2024-01-01_00-00-00.log'', ''logs/svc_2024-01-03_00-00-00.log''] \<and>
   purge_old_logs_global utc_1970 ''logs'' 1 rotated_dir =
     ([''logs/svc_2024-01-01_00-00-00.log''],
      present
        [\<lparr>fname = ''svc_2024-01-01_00-00-00.log.2024-01-02'', mtime = Some 10, removable = True\<rparr>,
         \<lparr>fname = ''notes.txt'', mtime = Some 5, removable = True\<rparr>,
         \<lparr>fname = ''svc_2024-01-03_00-00-00.log'', mtime = Some 40, removable = True\<rparr>]) \<and>
   fst (purge_old_logs_global utc_1970 ''logs'' 1 (only_logs rotated_dir)) =
     [''logs/svc_2024-01-01_00-00-00.log''] \<and>
   fst (purge_old_timestamped_logs ''svc'' ''logs'' 1 (only_logs rotated_dir)) =
     fst (purge_old_timestamped_logs ''svc'' ''logs'' 1 rotated_dir)"
proof -
  have h: "wf_dir rotated_dir"
    by (simp add: rotated_dir_def dir_eval)
  have r: "rotation_filename ''svc_2024-01-01_00-00-00.log'' ''midnight'' (2024, 1, 2, 0, 0, 0, 0) =
     ''svc_2024-01-01_00-00-00.log.2024-01-02''"
    by (simp add: rotation_filename_def rotation_suffix_def upper_def pad2_def pad4_def
          digit_char_def digits_def Let_def)
  have g: "glob_glob rotated_dir ''logs'' ''*.log'' =
     [''logs/svc_2024-01-01_00-00-00.log'', ''logs/svc_2024-01-03_00-00-00.log'']"
    "glob_glob rotated_dir ''logs'' (''svc'' @ ''_*.log'') =
     [''logs/svc_2024-01-01_00-00-00.log'', ''logs/svc_2024-01-03_00-00-00.log'']"
    by (simp_all add: rotated_dir_def dir_eval)
  have e: "purge_old_logs_global utc_1970 ''logs'' 1 rotated_dir =
     ([''logs/svc_2024-01-01_00-00-00.log''],
      present
        [\<lparr>fname = ''svc_2024-01-01_00-00-00.log.2024-01-02'', mtime = Some 10, removable = True\<rparr>,
         \<lparr>fname = ''notes.txt'', mtime = Some 5, removable = True\<rparr>,
         \<lparr>fname = ''svc_2024-01-03_00-00-00.log'', mtime = Some 40, removable = True\<rparr>])"
    by (simp add: rotated_dir_def pass_eval)
  show ?thesis
    using only_log_files_are_purged[OF h, where ft = utc_1970 and log_dir = "''logs''" and keep = 1
        and mname = "''svc''"] h r g e
    by simp
qed

subsection \<open>The handlers \<^verbatim>\<open>setup_logger\<close> attaches\<close>

lemma handlers_set_logger_level [simp]:
  "handlers (loggers (set_logger_level a lv s) n) = handlers (loggers s n)"
  by (simp add: set_logger_level_def)

lemma fs_set_logger_level [simp]: "fs (set_logger_level a lv s) = fs s"
  by (simp add: set_logger_level_def)

lemma handlers_filterwarnings [simp]:
  "handlers (loggers (filterwarnings a m s) n) = handlers (loggers s n)"
  by (simp add: filterwarnings_def)

lemma fs_filterwarnings [simp]: "fs (filterwarnings a m s) = fs s"
  by (simp add: filterwarnings_def)

lemma handlers_quieten [simp]: "handlers (loggers (quieten s) n) = handlers (loggers s n)"
  by (simp add: quieten_def noisy_loggers_def)

lemma fs_quieten [simp]: "fs (quieten s) = fs s"
  by (simp add: quieten_def noisy_loggers_def)

lemma fs_attach_handlers [simp]: "fs (attach_handlers n lv h s) = fs s"
  by (simp add: attach_handlers_def addHandler_def Let_def)

lemma handlers_attach_handlers:
  assumes "handlers (loggers s n) = []"
  shows "handlers (loggers (attach_handlers n lv \<lparr>target = TimedRotatingFile fn wh bc enc u,
            h_level = NOTSET, formatter = None\<rparr> s) n) =
         [\<lparr>target = TimedRotatingFile fn wh bc enc u, h_level = lv, formatter = Some LOG_FORMAT\<rparr>,
          \<lparr>target = Stream, h_level = INFO, formatter = Some LOG_FORMAT\<rparr>]"
  using assms by (simp add: attach_handlers_def addHandler_def Let_def StreamHandler_def)

lemma TimedRotatingFileHandler_Inr:
  "TimedRotatingFileHandler d log_dir now fn wh bc enc u = (Inr h, d') \<Longrightarrow>
     h = \<lparr>target = TimedRotatingFile fn wh bc enc u, h_level = NOTSET, formatter = None\<rparr> \<and>
     valid_when wh \<and> open_append d log_dir fn now = (Inr (), d')"
  by (auto simp add: TimedRotatingFileHandler_def split: prod.splits sum.splits if_splits)

lemma format_record_LOG_FORMAT:
  "formatter h = Some LOG_FORMAT \<Longrightarrow>
   format_record h r =
     Some (asctime r @ '' - '' @ levelname r @ '' - '' @ name r @ '' - '' @ message r)"
  by (simp add: format_record_def LOG_FORMAT_def record_dict_def)

lemma DynamicPrompt_first_call_handlers:
  assumes "handlers (loggers s n) = []"
    and "DynamicPrompt_setup_logger ft now n log_dir lv wh bc keep s = (Inr lg, s')"
  shows "lg = n \<and>
         handlers (loggers s' n) =
           [\<lparr>target = TimedRotatingFile (path_join log_dir (n @ ''_'' @ strftime (ft now) @ ''.log''))
                        wh bc ''utf-8'' False,
             h_level = lv, formatter = Some LOG_FORMAT\<rparr>,
            \<lparr>target = Stream, h_level = INFO, formatter = Some LOG_FORMAT\<rparr>]"
  using assms
  by (auto simp add: DynamicPrompt_setup_logger_def Let_def handlers_attach_handlers
        split: prod.splits sum.splits if_splits dest!: TimedRotatingFileHandler_Inr)

lemma StaticPrompt_first_call_handlers:
  assumes "handlers (loggers s n) = []"
    and "StaticPrompt_setup_logger ft now n log_dir lv wh bc keep s = (Inr lg, s')"
  shows "lg = n \<and>
         handlers (loggers s' n) =
           [\<lparr>target = TimedRotatingFile (path_join log_dir (n @ ''_'' @ strftime (ft now) @ ''.log''))
                        wh bc ''utf-8'' False,
             h_level = lv, formatter = Some LOG_FORMAT\<rparr>,
            \<lparr>target = Stream, h_level = INFO, formatter = Some LOG_FORMAT\<rparr>]"
  using assms
  by (auto simp add: StaticPrompt_setup_logger_def Let_def handlers_attach_handlers
        split: prod.splits sum.splits if_splits dest!: TimedRotatingFileHandler_Inr)

subsection \<open>\<^verbatim>\<open>setup_logger\<close> in closed form\<close>

lemma makedirs_ok:
  "dir_present d \<or> mkdir_ok d \<Longrightarrow> makedirs d = (Inr (), d\<lparr>dir_present := True\<rparr>)"
  by (cases d) (auto simp add: makedirs_def)

lemma digit_char_not_slash: "digit_char k \<noteq> CHR ''/''"
  using digit_char_digit[of k] by (auto simp add: digits_def)

lemma strftime_no_slash: "CHR ''/'' \<notin> set (strftime dt)"
  by (cases dt) (simp add: strftime_def pad2_def pad4_def digit_char_not_slash[symmetric])

lemma session_name_no_slash: "CHR ''/'' \<notin> set mname \<Longrightarrow> CHR ''/'' \<notin> set (session_name mname dt)"
  by (simp add: session_name_def strftime_no_slash)

lemma find_name_None: "(find (\<lambda>f. fname f = nm) xs = None) = (nm \<notin> fname ` set xs)"
  by (auto simp add: find_None_iff)

lemma open_append_ok:
  assumes "dir_present d" "open_ok d" "CHR ''/'' \<notin> set nm"
  shows "open_append d log_dir (path_join log_dir nm) now = (Inr (), with_file d nm now)"
proof (cases "nm \<in> fname ` set (files d)")
  case True
  then have "find (\<lambda>f. fname f = nm) (files d) \<noteq> None" by (simp add: find_name_None)
  then obtain f where "find (\<lambda>f. fname f = nm) (files d) = Some f" by blast
  with assms True show ?thesis
    by (simp add: open_append_def with_file_def lookup_def basename_path_join)
next
  case False
  then have "find (\<lambda>f. fname f = nm) (files d) = None" by (simp add: find_name_None)
  with assms False show ?thesis
    by (simp add: open_append_def with_file_def lookup_def basename_path_join)
qed

lemma with_file_idem: "with_file (with_file d nm now) nm now' = with_file d nm now"
  by (simp add: with_file_def)

lemma with_file_flags [simp]:
  "dir_present (with_file d nm now) = dir_present d"
  "open_ok (with_file d nm now) = open_ok d"
  by (simp_all add: with_file_def)

lemma TimedRotatingFileHandler_ok:
  assumes "dir_present d" "open_ok d" "CHR ''/'' \<notin> set nm" "valid_when wh"
  shows "TimedRotatingFileHandler d log_dir now (path_join log_dir nm) wh bc enc u =
           (Inr \<lparr>target = TimedRotatingFile (path_join log_dir nm) wh bc enc u,
                 h_level = NOTSET, formatter = None\<rparr>, with_file d nm now)"
  using assms by (simp add: TimedRotatingFileHandler_def open_append_ok)

lemma set_logger_level_fs_update [simp]:
  "(set_logger_level a lv s)\<lparr>fs := d\<rparr> = set_logger_level a lv (s\<lparr>fs := d\<rparr>)"
  by (simp add: set_logger_level_def)

lemma DynamicPrompt_first_call:
  fixes ft :: "posix_time \<Rightarrow> datetime" and now :: posix_time and s :: state and mname :: string
  assumes ok: "can_log_to (fs s) mname wh" and first: "handlers (loggers s mname) = []"
  defines "nm \<equiv> session_name mname (ft now)"
  defines "d1 \<equiv> with_file ((fs s)\<lparr>dir_present := True\<rparr>) nm now"
  shows "DynamicPrompt_setup_logger ft now mname log_dir lv wh bc keep s =
           (Inr mname,
            (quieten (attach_handlers mname lv
               \<lparr>target = TimedRotatingFile (path_join log_dir nm) wh bc ''utf-8'' False,
                 h_level = NOTSET, formatter = None\<rparr>
               (set_logger_level mname lv (s\<lparr>fs := d1\<rparr>))))
            \<lparr>fs := snd (purge_old_logs_global ft log_dir keep d1)\<rparr>)"
proof -
  from ok have mk: "makedirs (fs s) = (Inr (), (fs s)\<lparr>dir_present := True\<rparr>)"
    by (simp add: can_log_to_def makedirs_ok)
  have ns: "CHR ''/'' \<notin> set nm"
    using ok unfolding nm_def by (simp add: can_log_to_def session_name_no_slash)
  have op: "open_append ((fs s)\<lparr>dir_present := True\<rparr>) log_dir (path_join log_dir nm) now = (Inr (), d1)"
    unfolding d1_def using ok ns by (intro open_append_ok) (simp_all add: can_log_to_def)
  have tr: "TimedRotatingFileHandler d1 log_dir now (path_join log_dir nm) wh bc ''utf-8'' False =
           (Inr \<lparr>target = TimedRotatingFile (path_join log_dir nm) wh bc ''utf-8'' False,
                 h_level = NOTSET, formatter = None\<rparr>, d1)"
    using TimedRotatingFileHandler_ok[of d1 nm wh log_dir now bc "''utf-8''" False] ok ns
    by (simp add: d1_def can_log_to_def with_file_idem)
  have nm_eq: "mname @ ''_'' @ strftime (ft now) @ ''.log'' = nm"
    by (simp add: nm_def session_name_def)
  show ?thesis
    unfolding DynamicPrompt_setup_logger_def mk Let_def nm_eq
    using first by (simp add: op tr split: prod.splits)
qed

lemma DynamicPrompt_later_call:
  fixes ft :: "posix_time \<Rightarrow> datetime" and now :: posix_time and s :: state and mname :: string
  assumes ok: "can_log_to (fs s) mname wh" and later: "handlers (loggers s mname) \<noteq> []"
  defines "nm \<equiv> session_name mname (ft now)"
  defines "d1 \<equiv> with_file ((fs s)\<lparr>dir_present := True\<rparr>) nm now"
  shows "DynamicPrompt_setup_logger ft now mname log_dir lv wh bc keep s =
           (Inr mname,
            set_logger_level mname lv (s\<lparr>fs := snd (purge_old_logs_global ft log_dir keep d1)\<rparr>))"
proof -
  from ok have mk: "makedirs (fs s) = (Inr (), (fs s)\<lparr>dir_present := True\<rparr>)"
    by (simp add: can_log_to_def makedirs_ok)
  have ns: "CHR ''/'' \<notin> set nm"
    using ok unfolding nm_def by (simp add: can_log_to_def session_name_no_slash)
  have op: "open_append ((fs s)\<lparr>dir_present := True\<rparr>) log_dir (path_join log_dir nm) now = (Inr (), d1)"
    unfolding d1_def using ok ns by (intro open_append_ok) (simp_all add: can_log_to_def)
  have nm_eq: "mname @ ''_'' @ strftime (ft now) @ ''.log'' = nm"
    by (simp add: nm_def session_name_def)
  show ?thesis
    unfolding DynamicPrompt_setup_logger_def mk Let_def nm_eq
    using later by (simp add: op split: prod.splits)
qed

lemma StaticPrompt_first_call:
  fixes ft :: "posix_time \<Rightarrow> datetime" and now :: posix_time and s :: state and mname :: string
    and log_dir :: string and lv bc :: int
  assumes ok: "can_log_to (fs s) mname wh" and first: "handlers (loggers s mname) = []"
  defines "nm \<equiv> session_name mname (ft now)"
  defines "d1 \<equiv> with_file ((fs s)\<lparr>dir_present := True\<rparr>) nm now"
  defines "s1 \<equiv> quieten (attach_handlers mname lv
               \<lparr>target = TimedRotatingFile (path_join log_dir nm) wh bc ''utf-8'' False,
                 h_level = NOTSET, formatter = None\<rparr>
               (set_logger_level mname lv (s\<lparr>fs := d1\<rparr>)))"
  shows "StaticPrompt_setup_logger ft now mname log_dir lv wh bc keep s =
           (case purge_old_timestamped_logs mname log_dir keep d1 of
              (Inl e, d) \<Rightarrow> (Inl e, s1\<lparr>fs := d\<rparr>)
            | (Inr deleted, d) \<Rightarrow> (Inr mname, s1\<lparr>fs := d\<rparr>))"
proof -
  from ok have mk: "makedirs (fs s) = (Inr (), (fs s)\<lparr>dir_present := True\<rparr>)"
    by (simp add: can_log_to_def makedirs_ok)
  have ns: "CHR ''/'' \<notin> set nm"
    using ok unfolding nm_def by (simp add: can_log_to_def session_name_no_slash)
  have tr: "TimedRotatingFileHandler ((fs s)\<lparr>dir_present := True\<rparr>) log_dir now (path_join log_dir nm)
              wh bc ''utf-8'' False =
           (Inr \<lparr>target = TimedRotatingFile (path_join log_dir nm) wh bc ''utf-8'' False,
                 h_level = NOTSET, formatter = None\<rparr>, d1)"
    using TimedRotatingFileHandler_ok[of "(fs s)\<lparr>dir_present := True\<rparr>" nm wh log_dir now bc "''utf-8''" False]
      ok ns
    by (simp add: d1_def can_log_to_def)
  have nm_eq: "mname @ ''_'' @ strftime (ft now) @ ''.log'' = nm"
    by (simp add: nm_def session_name_def)
  show ?thesis
    unfolding StaticPrompt_setup_logger_def mk Let_def nm_eq
    using first by (simp add: tr s1_def split: prod.splits sum.splits)
qed

lemma StaticPrompt_later_call:
  assumes ok: "dir_present (fs s) \<or> mkdir_ok (fs s)" and later: "handlers (loggers s mname) \<noteq> []"
  shows "StaticPrompt_setup_logger ft now mname log_dir lv wh bc keep s =
           (case purge_old_timestamped_logs mname log_dir keep ((fs s)\<lparr>dir_present := True\<rparr>) of
              (Inl e, d) \<Rightarrow> (Inl e, set_logger_level mname lv (s\<lparr>fs := d\<rparr>))
            | (Inr deleted, d) \<Rightarrow> (Inr mname, set_logger_level mname lv (s\<lparr>fs := d\<rparr>)))"
  unfolding StaticPrompt_setup_logger_def makedirs_ok[OF ok] Let_def
  using later by (simp split: prod.splits sum.splits)

text \<open>
  C8. When the logger has no handler yet and the call returns, the logger has exactly two
  handlers: first a time-rotating file handler on the timestamped session file, with the
  given rotation interval, \<open>backup_count\<close> backups, UTF-8, local time and minimum severity
  \<open>level\<close>; then a console handler with minimum severity \<open>INFO\<close>, whatever \<open>level\<close> is. Both
  format a record as \<open>asctime - levelname - name - message\<close>. The call of the global variant
  returns whenever the directory can be made, the file opened and the interval is known;
  the scoped variant then returns unless its retention pass raises.
\<close>

theorem first_call_attaches_file_and_console_handler:
  fixes ft :: "posix_time \<Rightarrow> datetime" and now :: posix_time and s :: state
    and mname log_dir wh :: string and level backup_count keep :: int
  defines "fh \<equiv> \<lparr>target = TimedRotatingFile (path_join log_dir (session_name mname (ft now)))
                        wh backup_count ''utf-8'' False,
                  h_level = level, formatter = Some LOG_FORMAT\<rparr>"
    and "ch \<equiv> \<lparr>target = Stream, h_level = INFO, formatter = Some LOG_FORMAT\<rparr>"
    and "d1 \<equiv> with_file ((fs s)\<lparr>dir_present := True\<rparr>) (session_name mname (ft now)) now"
  assumes first: "handlers (loggers s mname) = []"
  shows
    "(\<forall>lg s'. DynamicPrompt_setup_logger ft now mname log_dir level wh backup_count keep s = (Inr lg, s')
        \<longrightarrow> lg = mname \<and> handlers (loggers s' mname) = [fh, ch]) \<and>
     (\<forall>lg s'. StaticPrompt_setup_logger ft now mname log_dir level wh backup_count keep s = (Inr lg, s')
        \<longrightarrow> lg = mname \<and> handlers (loggers s' mname) = [fh, ch]) \<and>
     (can_log_to (fs s) mname wh \<longrightarrow>
        fst (DynamicPrompt_setup_logger ft now mname log_dir level wh backup_count keep s) = Inr mname) \<and>
     (can_log_to (fs s) mname wh \<longrightarrow> list_all (readable d1) (glob_glob d1 log_dir (mname @ ''_*.log'')) \<longrightarrow>
        fst (StaticPrompt_setup_logger ft now mname log_dir level wh backup_count keep s) = Inr mname) \<and>
     format_record fh r =
       Some (asctime r @ '' - '' @ levelname r @ '' - '' @ name r @ '' - '' @ message r) \<and>
     format_record ch r =
       Some (asctime r @ '' - '' @ levelname r @ '' - '' @ name r @ '' - '' @ message r) \<and>
     INFO = 20"
proof -
  have a: "lg = mname \<and> handlers (loggers s' mname) = [fh, ch]"
    if "DynamicPrompt_setup_logger ft now mname log_dir level wh backup_count keep s = (Inr lg, s')"
    for lg s'
    using DynamicPrompt_first_call_handlers[OF first that] by (simp add: fh_def ch_def session_name_def)
  have b: "lg = mname \<and> handlers (loggers s' mname) = [fh, ch]"
    if "StaticPrompt_setup_logger ft now mname log_dir level wh backup_count keep s = (Inr lg, s')"
    for lg s'
    using StaticPrompt_first_call_handlers[OF first that] by (simp add: fh_def ch_def session_name_def)
  have c: "fst (DynamicPrompt_setup_logger ft now mname log_dir level wh backup_count keep s) = Inr mname"
    if "can_log_to (fs s) mname wh"
    by (simp add: DynamicPrompt_first_call[OF that first])
  have d: "fst (StaticPrompt_setup_logger ft now mname log_dir level wh backup_count keep s) = Inr mname"
    if "can_log_to (fs s) mname wh" "list_all (readable d1) (glob_glob d1 log_dir (mname @ ''_*.log''))"
    using purge_old_timestamped_logs_loop[OF that(2), of keep]
    by (simp add: StaticPrompt_first_call[OF that(1) first] d1_def)
  have e: "format_record fh r =
       Some (asctime r @ '' - '' @ levelname r @ '' - '' @ name r @ '' - '' @ message r)"
    "format_record ch r =
       Some (asctime r @ '' - '' @ levelname r @ '' - '' @ name r @ '' - '' @ message r)"
    by (simp_all add: format_record_LOG_FORMAT fh_def ch_def)
  from a b c d e show ?thesis by (simp add: INFO_def)
qed

theorem first_call_attaches_file_and_console_handler_witness:
  "handlers (loggers (fresh no_dir) ''svc'') = [] \<and>
   can_log_to (fs (fresh no_dir)) ''svc'' ''midnight'' \<and>
   DynamicPrompt_setup_logger utc_2024 5 ''svc'' ''logs'' DEBUG ''midnight'' 7 10 (fresh no_dir) =
     (Inr ''svc'', snd (DynamicPrompt_setup_logger utc_2024 5 ''svc'' ''logs'' DEBUG ''midnight'' 7 10 (fresh no_dir))) \<and>
   handlers (loggers (snd (DynamicPrompt_setup_logger utc_2024 5 ''svc'' ''logs'' DEBUG ''midnight'' 7 10
       (fresh no_dir))) ''svc'') =
     [\<lparr>target = TimedRotatingFile ''logs/svc_2024-01-01_00-00-05.log'' ''midnight'' 7 ''utf-8'' False,
       h_level = 10, formatter = Some ''%(asctime)s - %(levelname)s - %(name)s - %(message)s''\<rparr>,
      \<lparr>target = Stream, h_level = 20,
       formatter = Some ''%(asctime)s - %(levelname)s - %(name)s - %(message)s''\<rparr>] \<and>
   StaticPrompt_setup_logger utc_2024 5 ''svc'' ''logs'' DEBUG ''midnight'' 7 10 (fresh no_dir) =
     (Inr ''svc'', snd (StaticPrompt_setup_logger utc_2024 5 ''svc'' ''logs'' DEBUG ''midnight'' 7 10 (fresh no_dir))) \<and>
   handlers (loggers (snd (StaticPrompt_setup_logger utc_2024 5 ''svc'' ''logs'' DEBUG ''midnight'' 7 10
       (fresh no_dir))) ''svc'') =
     [\<lparr>target = TimedRotatingFile ''logs/svc_2024-01-01_00-00-05.log'' ''midnight'' 7 ''utf-8'' False,
       h_level = 10, formatter = Some ''%(asctime)s - %(levelname)s - %(name)s - %(message)s''\<rparr>,
      \<lparr>target = Stream, h_level = 20,
       formatter = Some ''%(asctime)s - %(levelname)s - %(name)s - %(message)s''\<rparr>]"
proof -
  have h1: "handlers (loggers (fresh no_dir) ''svc'') = []"
    by (simp add: fresh_def)
  have h2: "can_log_to (fs (fresh no_dir)) ''svc'' ''midnight''"
    by (simp add: fresh_def no_dir_def can_log_to_def valid_when_def upper_def)
  have nm: "path_join ''logs'' (session_name ''svc'' (utc_2024 5)) = ''logs/svc_2024-01-01_00-00-05.log''"
    by (simp add: path_join_def session_name_def utc_2024_def strftime_def pad2_def pad4_def
          digit_char_def digits_def)
  have h3: "list_all (readable (with_file ((fs (fresh no_dir))\<lparr>dir_present := True\<rparr>)
                 (session_name ''svc'' (utc_2024 5)) 5))
       (glob_glob (with_file ((fs (fresh no_dir))\<lparr>dir_present := True\<rparr>)
                 (session_name ''svc'' (utc_2024 5)) 5) ''logs'' (''svc'' @ ''_*.log''))"
    by (simp add: fresh_def no_dir_def with_file_def session_name_def utc_2024_def strftime_def
          pad2_def pad4_def digit_char_def digits_def dir_eval basename_def)
  show ?thesis
    using first_call_attaches_file_and_console_handler[OF h1, where ft = utc_2024 and now = 5
        and log_dir = "''logs''" and wh = "''midnight''" and level = DEBUG and backup_count = 7
        and keep = 10] h1 h2 h3
    by (simp add: nm LOG_FORMAT_def INFO_def DEBUG_def prod_eq_iff)
qed

subsection \<open>Calling \<^verbatim>\<open>setup_logger\<close> twice\<close>

lemmas setup_eval = DynamicPrompt_setup_logger_def StaticPrompt_setup_logger_def makedirs_def
  open_append_def TimedRotatingFileHandler_def valid_when_def upper_def attach_handlers_def
  addHandler_def StreamHandler_def quieten_def noisy_loggers_def set_logger_level_def
  filterwarnings_def strftime_def pad2_def pad4_def digit_char_def fresh_def no_dir_def
  utc_2024_def NOTSET_def DEBUG_def INFO_def WARNING_def LOG_FORMAT_def

lemma dynamic_once_result:
  "fst dynamic_once = Inr ''svc''"
  "fs (snd dynamic_once) =
     present [\<lparr>fname = ''svc_2024-01-01_00-00-05.log'', mtime = Some 5, removable = True\<rparr>]"
  "handlers (loggers (snd dynamic_once) ''svc'') =
     [\<lparr>target = TimedRotatingFile ''logs/svc_2024-01-01_00-00-05.log'' ''midnight'' 7 ''utf-8'' False,
       h_level = 10, formatter = Some LOG_FORMAT\<rparr>,
      \<lparr>target = Stream, h_level = 20, formatter = Some LOG_FORMAT\<rparr>]"
  by (simp_all add: dynamic_once_def setup_eval pass_eval split: prod.splits)

lemma static_once_result:
  "fst static_once = Inr ''svc''"
  "fs (snd static_once) =
     present [\<lparr>fname = ''svc_2024-01-01_00-00-05.log'', mtime = Some 5, removable = True\<rparr>]"
  "handlers (loggers (snd static_once) ''svc'') =
     [\<lparr>target = TimedRotatingFile ''logs/svc_2024-01-01_00-00-05.log'' ''midnight'' 7 ''utf-8'' False,
       h_level = 10, formatter = Some LOG_FORMAT\<rparr>,
      \<lparr>target = Stream, h_level = 20, formatter = Some LOG_FORMAT\<rparr>]"
  by (simp_all add: static_once_def setup_eval pass_eval mtime_keys.simps split: prod.splits sum.splits)

lemma dynamic_twice_result:
  "dynamic_twice =
     (Inr ''svc'',
      set_logger_level ''svc'' DEBUG ((snd dynamic_once)\<lparr>fs := present
        [\<lparr>fname = ''svc_2024-01-01_00-00-05.log'', mtime = Some 5, removable = True\<rparr>,
         \<lparr>fname = ''svc_2024-01-01_00-00-06.log'', mtime = Some 6, removable = True\<rparr>]\<rparr>))"
proof -
  have ok: "can_log_to (fs (snd dynamic_once)) ''svc'' ''midnight''"
    by (simp add: dynamic_once_result can_log_to_def present_def valid_when_def upper_def)
  have later: "handlers (loggers (snd dynamic_once) ''svc'') \<noteq> []"
    by (simp add: dynamic_once_result)
  have d: "snd (purge_old_logs_global utc_2024 ''logs'' 10
             (with_file ((fs (snd dynamic_once))\<lparr>dir_present := True\<rparr>)
                (session_name ''svc'' (utc_2024 6)) 6)) =
           present
        [\<lparr>fname = ''svc_2024-01-01_00-00-05.log'', mtime = Some 5, removable = True\<rparr>,
         \<lparr>fname = ''svc_2024-01-01_00-00-06.log'', mtime = Some 6, removable = True\<rparr>]"
    by (simp add: dynamic_once_result with_file_def session_name_def strftime_def pad2_def pad4_def
          digit_char_def utc_2024_def pass_eval)
  show ?thesis
    unfolding dynamic_twice_def DynamicPrompt_later_call[OF ok later] d ..
qed

lemma static_twice_result:
  "static_twice =
     (Inr ''svc'',
      set_logger_level ''svc'' DEBUG ((snd static_once)\<lparr>fs := present
        [\<lparr>fname = ''svc_2024-01-01_00-00-05.log'', mtime = Some 5, removable = True\<rparr>]\<rparr>))"
proof -
  have ok: "dir_present (fs (snd static_once)) \<or> mkdir_ok (fs (snd static_once))"
    by (simp add: static_once_result present_def)
  have later: "handlers (loggers (snd static_once) ''svc'') \<noteq> []"
    by (simp add: static_once_result)
  have d: "purge_old_timestamped_logs ''svc'' ''logs'' 10 ((fs (snd static_once))\<lparr>dir_present := True\<rparr>) =
           (Inr [], present
        [\<lparr>fname = ''svc_2024-01-01_00-00-05.log'', mtime = Some 5, removable = True\<rparr>])"
    by (simp add: static_once_result pass_eval)
  show ?thesis
    unfolding static_twice_def StaticPrompt_later_call[OF ok later] d by simp
qed

lemma remove_each_only_removes:
  "set (files (snd (remove_each ps acc d))) \<subseteq> set (files d)"
proof (induction ps arbitrary: acc d)
  case Nil
  then show ?case by simp
next
  case (Cons p ps)
  show ?case
  proof (cases "can_remove d p")
    case True
    have "set (files (snd (remove_each ps (acc @ [p])
            (d\<lparr>files := filter (\<lambda>g. fname g \<noteq> basename p) (files d)\<rparr>)))) \<subseteq>
          set (files (d\<lparr>files := filter (\<lambda>g. fname g \<noteq> basename p) (files d)\<rparr>))"
      by (rule Cons.IH)
    with True show ?thesis by (auto simp add: os_remove_ok)
  next
    case False
    with Cons.IH[of acc d] show ?thesis by (simp add: os_remove_fails)
  qed
qed

lemma scoped_pass_only_removes:
  "set (files (snd (purge_old_timestamped_logs m log_dir keep d))) \<subseteq> set (files d)"
proof (cases "list_all (readable d) (glob_glob d log_dir (m @ ''_*.log''))")
  case True
  then show ?thesis
    by (simp add: purge_old_timestamped_logs_loop remove_each_only_removes)
next
  case False
  then show ?thesis by (simp add: purge_old_timestamped_logs_raises)
qed

text \<open>
  A later call of the scoped variant, whatever the state, creates no file and leaves the
  handlers of the logger as they are.
\<close>

lemma StaticPrompt_later_call_creates_nothing:
  assumes "handlers (loggers s mname) \<noteq> []"
  shows "set (files (fs (snd (StaticPrompt_setup_logger ft now mname log_dir lv wh bc keep s)))) \<subseteq>
           set (files (fs s)) \<and>
         handlers (loggers (snd (StaticPrompt_setup_logger ft now mname log_dir lv wh bc keep s)) mname) =
           handlers (loggers s mname)"
proof (cases "dir_present (fs s) \<or> mkdir_ok (fs s)")
  case True
  have "set (files (snd (purge_old_timestamped_logs mname log_dir keep ((fs s)\<lparr>dir_present := True\<rparr>)))) \<subseteq>
        set (files ((fs s)\<lparr>dir_present := True\<rparr>))"
    by (rule scoped_pass_only_removes)
  then show ?thesis
    by (cases "purge_old_timestamped_logs mname log_dir keep ((fs s)\<lparr>dir_present := True\<rparr>)")
       (auto simp add: StaticPrompt_later_call[OF True assms] split: sum.splits)
next
  case False
  then show ?thesis
    by (simp add: StaticPrompt_setup_logger_def makedirs_def)
qed

text \<open>
  C3 fails for the global variant. Two calls for \<open>svc\<close> in a fresh process, one second apart:
  both return the logger, and the second call leaves the two handlers of the first, bound
  to the first file, as they are, but it has touched a second, empty session file before it
  looks at the handlers. The scoped variant, on the same input, leaves one file.
\<close>

theorem second_call_of_global_variant_touches_new_file:
  "fst dynamic_once = Inr ''svc'' \<and> fst dynamic_twice = Inr ''svc'' \<and>
   map fname (files (fs (snd dynamic_once))) = [''svc_2024-01-01_00-00-05.log''] \<and>
   map fname (files (fs (snd dynamic_twice))) =
     [''svc_2024-01-01_00-00-05.log'', ''svc_2024-01-01_00-00-06.log''] \<and>
   handlers (loggers (snd dynamic_twice) ''svc'') = handlers (loggers (snd dynamic_once) ''svc'') \<and>
   map target (handlers (loggers (snd dynamic_twice) ''svc'')) =
     [TimedRotatingFile ''logs/svc_2024-01-01_00-00-05.log'' ''midnight'' 7 ''utf-8'' False, Stream] \<and>
   fst static_once = Inr ''svc'' \<and> fst static_twice = Inr ''svc'' \<and>
   map fname (files (fs (snd static_twice))) = [''svc_2024-01-01_00-00-05.log''] \<and>
   map target (handlers (loggers (snd static_twice) ''svc'')) =
     [TimedRotatingFile ''logs/svc_2024-01-01_00-00-05.log'' ''midnight'' 7 ''utf-8'' False, Stream]"
  by (simp add: dynamic_once_result dynamic_twice_result static_once_result static_twice_result
        present_def)

subsection \<open>Writing and reading the file-name timestamp\<close>

lemma below_ten:
  "(j::nat) < 10 \<Longrightarrow>
     j = 0 \<or> j = 1 \<or> j = 2 \<or> j = 3 \<or> j = 4 \<or> j = 5 \<or> j = 6 \<or> j = 7 \<or> j = 8 \<or> j = 9"
  by presburger

lemma digit_val_nth: "j < 10 \<Longrightarrow> digit_val (digits ! j) = j"
  by (drule below_ten) (auto simp add: digit_val_def digits_def)

lemma digit_val_digit_char: "digit_val (digit_char k) = k mod 10"
  unfolding digit_char_def by (rule digit_val_nth) simp

lemma digit_char_digit_val: "is_digit c \<Longrightarrow> digit_char (digit_val c) = c"
  by (auto simp add: is_digit_def digit_val_def digit_char_def digits_def)

lemma digit_val_less: "is_digit c \<Longrightarrow> digit_val c < 10"
  by (auto simp add: is_digit_def digit_val_def digits_def)

lemma is_digit_digit_char [simp]: "is_digit (digit_char k)"
  using digit_char_digit[of k] by (simp add: is_digit_def)

lemma join2: "n < 100 \<Longrightarrow> 10 * (n div 10 mod 10) + n mod 10 = (n::nat)"
  by simp

lemma num_pad2: "n < 100 \<Longrightarrow> num (pad2 n) = n"
  by (simp add: pad2_def digit_val_digit_char join2)

lemma div100: "(n::nat) div 100 = n div 10 div 10"
  by (simp add: div_mult2_eq[symmetric])

lemma div1000: "(n::nat) div 1000 = n div 10 div 10 div 10"
  by (simp add: div_mult2_eq[symmetric])

lemma four_places:
  "n = 10 * q1 + r0 \<Longrightarrow> q1 = 10 * q2 + r1 \<Longrightarrow> q2 = 10 * q3 + r2 \<Longrightarrow>
     1000 * q3 + 100 * r2 + 10 * r1 + r0 = (n::nat)"
  by simp

lemma join4:
  assumes "n < 10000"
  shows "1000 * (n div 1000) + 100 * (n div 100 mod 10) + 10 * (n div 10 mod 10) + n mod 10 = (n::nat)"
  unfolding div100 div1000 by (rule four_places) simp_all

lemma num_pad4: "n < 10000 \<Longrightarrow> num (pad4 n) = n"
  by (simp add: pad4_def digit_val_digit_char join4)

lemma digit_char_place: "is_digit c \<Longrightarrow> digit_char (10 * m + digit_val c) = c"
proof -
  assume c: "is_digit c"
  have "(10 * m + digit_val c) mod 10 = digit_val c" using digit_val_less[OF c] by simp
  then have "digit_char (10 * m + digit_val c) = digits ! digit_val c"
    by (simp only: digit_char_def)
  moreover have "digit_val c mod 10 = digit_val c" using digit_val_less[OF c] by simp
  then have "digit_char (digit_val c) = digits ! digit_val c"
    by (simp only: digit_char_def)
  ultimately show ?thesis using digit_char_digit_val[OF c] by simp
qed

lemma div10_place: "is_digit c \<Longrightarrow> (10 * m + digit_val c) div 10 = m"
  using digit_val_less[of c] by simp

lemma pad2_num:
  assumes "is_digit a" "is_digit b"
  shows "pad2 (num [a, b]) = [a, b]"
proof -
  have n: "num [a, b] = 10 * (10 * 0 + digit_val a) + digit_val b" by simp
  show ?thesis
    by (simp only: n pad2_def div10_place[OF assms(2)] digit_char_place[OF assms(1)]
          digit_char_place[OF assms(2)])
qed

lemma pad4_num:
  assumes "is_digit a" "is_digit b" "is_digit c" "is_digit d"
  shows "pad4 (num [a, b, c, d]) = [a, b, c, d]"
proof -
  have n: "num [a, b, c, d] =
      10 * (10 * (10 * (10 * 0 + digit_val a) + digit_val b) + digit_val c) + digit_val d"
    by simp
  show ?thesis
    by (simp only: n pad4_def div100 div1000 div10_place[OF assms(4)] div10_place[OF assms(3)]
          div10_place[OF assms(2)] digit_char_place[OF assms(1)] digit_char_place[OF assms(2)]
          digit_char_place[OF assms(3)] digit_char_place[OF assms(4)])
qed

lemma length_pad [simp]: "length (pad2 n) = 2" "length (pad4 n) = 4"
  by (simp_all add: pad2_def pad4_def)

lemma length_strftime: "length (strftime dt) = 19"
  by (cases dt) (simp add: strftime_def)

lemma strftime_matches: "match_atoms TIMESTAMP_FMT (strftime dt)"
  by (cases dt) (simp add: strftime_def pad2_def pad4_def TIMESTAMP_FMT_def)

lemma days_in_month_le: "days_in_month y m \<le> 31"
  by (simp add: days_in_month_def)

lemma strptime_strftime:
  assumes "valid_datetime dt"
  shows "strptime (strftime dt) = Some (whole_second dt)"
proof -
  obtain y mo d h mi s us where dt: "dt = (y, mo, d, h, mi, s, us)" by (cases dt)
  from assms have b: "y < 10000" "mo < 100" "d < 100" "h < 100" "mi < 100" "s < 100"
    using days_in_month_le[of y mo] by (simp_all add: dt valid_datetime_def)
  have f: "num (take 4 (strftime dt)) = y" "num (take 2 (drop 5 (strftime dt))) = mo"
    "num (take 2 (drop 8 (strftime dt))) = d" "num (take 2 (drop 11 (strftime dt))) = h"
    "num (take 2 (drop 14 (strftime dt))) = mi" "num (take 2 (drop 17 (strftime dt))) = s"
    using b by (simp_all add: dt strftime_def num_pad2 num_pad4 del: num.simps)
  have v: "valid_datetime (y, mo, d, h, mi, s, 0)"
    using assms by (simp add: dt valid_datetime_def)
  show ?thesis
    unfolding strptime_def Let_def f using strftime_matches[of dt] v
    by (simp add: dt whole_second_def)
qed

lemma match_atoms_length: "match_atoms as xs \<Longrightarrow> length xs = length as"
  by (induction as xs rule: match_atoms.induct) auto

lemma match_atoms_append:
  "length xs = length as \<Longrightarrow>
     match_atoms (as @ bs) (xs @ ys) = (match_atoms as xs \<and> match_atoms bs ys)"
  by (induction as xs rule: match_atoms.induct) auto

lemma match_atoms_split:
  "match_atoms (as @ bs) xs \<Longrightarrow>
     match_atoms as (take (length as) xs) \<and> match_atoms bs (drop (length as) xs)"
proof -
  assume m: "match_atoms (as @ bs) xs"
  then have "length xs = length as + length bs" by (simp add: match_atoms_length)
  then have "length (take (length as) xs) = length as" by simp
  from match_atoms_append[OF this, of bs "drop (length as) xs"] m show ?thesis by simp
qed

lemma match_log: "match_atoms [Lit CHR ''.'', Lit CHR ''l'', Lit CHR ''o'', Lit CHR ''g''] xs = (xs = ''.log'')"
proof
  assume m: "match_atoms [Lit CHR ''.'', Lit CHR ''l'', Lit CHR ''o'', Lit CHR ''g''] xs"
  then have "length xs = 4" by (simp add: match_atoms_length)
  then obtain a b c d where "xs = [a, b, c, d]"
    by (auto simp add: length_Suc_conv numeral_eq_Suc)
  with m show "xs = ''.log''" by simp
next
  assume "xs = ''.log''"
  then show "match_atoms [Lit CHR ''.'', Lit CHR ''l'', Lit CHR ''o'', Lit CHR ''g''] xs" by simp
qed

lemma re_search_name:
  assumes "match_atoms TIMESTAMP_FMT ts"
  shows "re_search (stem @ ''_'' @ ts @ ''.log'') = Some ts"
proof -
  from assms have len: "length ts = 19" by (simp add: match_atoms_length TIMESTAMP_FMT_def)
  have fl: "length TIMESTAMP_FMT = 19" by (simp add: TIMESTAMP_FMT_def)
  let ?base = "stem @ ''_'' @ ts @ ''.log''"
  have nl: "\<not> (?base \<noteq> [] \<and> last ?base = CHR 0x0A)" by simp
  have tail: "drop (length ?base - 24) ?base = ''_'' @ ts @ ''.log''" using len by simp
  have "match_atoms (TIMESTAMP_FMT @ [Lit CHR ''.'', Lit CHR ''l'', Lit CHR ''o'', Lit CHR ''g''])
          (ts @ ''.log'')"
    using assms by (subst match_atoms_append) (simp_all add: len fl)
  then have m: "match_atoms TIMESTAMP_RE (''_'' @ ts @ ''.log'')"
    by (simp add: TIMESTAMP_RE_def)
  show ?thesis
    unfolding re_search_def Let_def if_not_P[OF nl] tail using m len by simp
qed

lemma re_search_Some:
  assumes r: "re_search base = Some ts" and log: "suffix ''.log'' base"
  shows "\<exists>stem. base = stem @ ''_'' @ ts @ ''.log'' \<and> match_atoms TIMESTAMP_FMT ts"
proof -
  from log obtain zs where zs: "base = zs @ ''.log''" by (auto simp add: suffix_def)
  then have nl: "\<not> (base \<noteq> [] \<and> last base = CHR 0x0A)" by simp
  let ?tail = "drop (length base - 24) base"
  from r have m: "match_atoms TIMESTAMP_RE ?tail" and ts: "ts = take 19 (drop 1 ?tail)"
    unfolding re_search_def Let_def if_not_P[OF nl] by (auto split: if_splits)
  from m obtain c rest where tl: "?tail = c # rest" "c = CHR ''_''"
    and m2: "match_atoms (TIMESTAMP_FMT @ [Lit CHR ''.'', Lit CHR ''l'', Lit CHR ''o'', Lit CHR ''g'']) rest"
    by (cases ?tail) (auto simp add: TIMESTAMP_RE_def)
  have fl: "length TIMESTAMP_FMT = 19" by (simp add: TIMESTAMP_FMT_def)
  from match_atoms_split[OF m2] have a: "match_atoms TIMESTAMP_FMT (take 19 rest)"
    and b: "drop 19 rest = ''.log''"
    by (simp_all add: fl match_log)
  have "rest = take 19 rest @ drop 19 rest" by simp
  with b have rest: "rest = take 19 rest @ ''.log''" by simp
  have "ts = take 19 rest" using ts tl by simp
  with rest have "?tail = ''_'' @ ts @ ''.log''" using tl by simp
  moreover have "base = take (length base - 24) base @ ?tail" by simp
  ultimately have "base = take (length base - 24) base @ ''_'' @ ts @ ''.log''" by simp
  with a \<open>ts = take 19 rest\<close> show ?thesis by blast
qed

lemma match_atoms_Cons:
  "match_atoms (a # as) xs =
     (\<exists>c cs. xs = c # cs \<and> (case a of Digit \<Rightarrow> is_digit c | Lit l \<Rightarrow> l = c) \<and> match_atoms as cs)"
  by (cases xs; cases a) auto

lemma match_atoms_Nil: "match_atoms [] xs = (xs = [])"
  by (cases xs) auto

lemma strptime_Some:
  assumes "strptime ts = Some t"
  shows "valid_datetime t \<and> strftime t = ts \<and> whole_second t = t"
proof -
  from assms have m: "match_atoms TIMESTAMP_FMT ts"
    by (auto simp add: strptime_def split: if_splits)
  then obtain c1 c2 c3 c4 c5 c6 c7 c8 c9 c10 c11 c12 c13 c14 where
    ts: "ts = [c1, c2, c3, c4, CHR ''-'', c5, c6, CHR ''-'', c7, c8, CHR ''_'', c9, c10, CHR ''-'',
               c11, c12, CHR ''-'', c13, c14]"
    and dg: "is_digit c1" "is_digit c2" "is_digit c3" "is_digit c4" "is_digit c5" "is_digit c6"
      "is_digit c7" "is_digit c8" "is_digit c9" "is_digit c10" "is_digit c11" "is_digit c12"
      "is_digit c13" "is_digit c14"
    unfolding TIMESTAMP_FMT_def match_atoms_Cons match_atoms_Nil by auto
  let ?t = "(num [c1, c2, c3, c4], num [c5, c6], num [c7, c8], num [c9, c10], num [c11, c12],
             num [c13, c14], 0::nat)"
  from assms m have t: "t = ?t" and v: "valid_datetime ?t"
    by (auto simp add: strptime_def Let_def ts split: if_splits simp del: num.simps)
  have "strftime ?t = ts"
    unfolding strftime_def prod.case
    by (simp only: pad4_num[OF dg(1-4)] pad2_num[OF dg(5,6)] pad2_num[OF dg(7,8)]
          pad2_num[OF dg(9,10)] pad2_num[OF dg(11,12)] pad2_num[OF dg(13,14)] ts append.simps)
  with v show ?thesis by (simp add: t whole_second_def)
qed

lemma whole_second_valid: "valid_datetime dt \<Longrightarrow> valid_datetime (whole_second dt)"
  by (cases dt) (simp add: valid_datetime_def whole_second_def)

lemma parse_name:
  assumes "valid_datetime dt" and "basename p = stem @ ''_'' @ strftime dt @ ''.log''"
  shows "parse_timestamp_from_filename p = Some (whole_second dt)"
  unfolding parse_timestamp_from_filename_def Let_def assms(2)
    re_search_name[OF strftime_matches[of dt], of stem]
  by (simp add: strptime_strftime[OF assms(1)])

lemma parse_Some:
  assumes "parse_timestamp_from_filename p = Some t" and "suffix ''.log'' (basename p)"
  shows "\<exists>stem. valid_datetime t \<and> basename p = stem @ ''_'' @ strftime t @ ''.log''"
proof -
  from assms(1) obtain ts where r: "re_search (basename p) = Some ts" and s: "strptime ts = Some t"
    by (auto simp add: parse_timestamp_from_filename_def split: option.splits)
  from re_search_Some[OF r assms(2)] obtain stem where "basename p = stem @ ''_'' @ ts @ ''.log''"
    by blast
  with strptime_Some[OF s] show ?thesis by auto
qed

lemma parse_None_iff:
  assumes "suffix ''.log'' (basename p)"
  shows "(parse_timestamp_from_filename p = None) = (\<not> carries_timestamp (basename p))"
proof
  assume n: "parse_timestamp_from_filename p = None"
  show "\<not> carries_timestamp (basename p)"
  proof
    assume "carries_timestamp (basename p)"
    then obtain stem dt where "valid_datetime dt" "basename p = stem @ ''_'' @ strftime dt @ ''.log''"
      by (auto simp add: carries_timestamp_def)
    from parse_name[OF this] n show False by simp
  qed
next
  assume c: "\<not> carries_timestamp (basename p)"
  show "parse_timestamp_from_filename p = None"
  proof (rule ccontr)
    assume "parse_timestamp_from_filename p \<noteq> None"
    then obtain t where "parse_timestamp_from_filename p = Some t" by auto
    from parse_Some[OF this assms] obtain stem where
      "valid_datetime t" "basename p = stem @ ''_'' @ strftime t @ ''.log''" by blast
    then have "carries_timestamp (basename p)" unfolding carries_timestamp_def by blast
    with c show False by contradiction
  qed
qed

lemma hd_sort_key_least:
  assumes p: "p \<in> set xs" and least: "\<And>q. q \<in> set xs \<Longrightarrow> q \<noteq> p \<Longrightarrow> k p < k q"
  shows "hd (sort_key k xs) = p"
proof (cases "sort_key k xs")
  case Nil
  then have "set (sort_key k xs) = {}" by simp
  with p show ?thesis by simp
next
  case (Cons a rest)
  have "sorted (map k (a # rest))" unfolding Cons[symmetric] by (rule sorted_sort_key)
  then have le: "k a \<le> k x" if "x \<in> set (a # rest)" for x using that by auto
  have a: "a \<in> set xs" using Cons by (metis list.set_intros(1) set_sort)
  have "p \<in> set (a # rest)" using p Cons by (metis set_sort)
  from le[OF this] least[OF a] have "a = p" by force
  with Cons show ?thesis by simp
qed

text \<open>
  C2, as amended. For a plain directory name, a directory of ASCII file names and a
  platform that converts timestamp 0, the global pass orders the matched files by this key:
  the datetime in the name when the name ends in \<^verbatim>\<open>_YYYY-MM-DD_HH-MM-SS.log\<close> for a valid date
  and time; else the local datetime of the modification time; else, when that is unreadable
  or cannot be converted to a datetime, the local datetime of timestamp zero. Such a file is
  the first candidate when every other matched file has a key after the epoch and there is
  a surplus. The scoped pass, for a plain module name, orders the matched files by
  modification time alone, for files whose modification time is readable.
\<close>

theorem retention_ordering_key:
  fixes ft :: "posix_time \<Rightarrow> datetime" and d :: directory and log_dir mname :: string
    and keep :: int
  defines "G \<equiv> glob_glob d log_dir ''*.log''"
    and "K \<equiv> sort_key_of ft d"
    and "S \<equiv> glob_glob d log_dir (mname @ ''_*.log'')"
    and "M \<equiv> the_mtime d"
  assumes wf: "wf_dir d" and dir: "plain_dir log_dir"
  shows
    "(ascii_names d \<longrightarrow> valid_datetime (ft 0) \<longrightarrow>
        purge_old_logs_global ft log_dir keep d = remove_each (global_candidates ft log_dir keep d) [] d \<and>
        global_candidates ft log_dir keep d = take (nat (int (length G) - keep)) (sort_key K G) \<and>
        (\<forall>p\<in>set G.
           (\<forall>stem dt. valid_datetime dt \<longrightarrow> basename p = stem @ ''_'' @ strftime dt @ ''.log'' \<longrightarrow>
              K p = whole_second dt) \<and>
           (\<not> carries_timestamp (basename p) \<longrightarrow>
              (\<forall>m. getmtime d p = Inr m \<longrightarrow> valid_datetime (ft m) \<longrightarrow> K p = ft m) \<and>
              (\<forall>m. getmtime d p = Inr m \<longrightarrow> \<not> valid_datetime (ft m) \<longrightarrow> K p = ft 0) \<and>
              (\<forall>e. getmtime d p = Inl e \<longrightarrow> K p = ft 0))) \<and>
        (\<forall>p\<in>set G.
           \<not> carries_timestamp (basename p) \<longrightarrow> \<not> convertible ft d p \<longrightarrow>
           (\<forall>q\<in>set G. q \<noteq> p \<longrightarrow> ft 0 < K q) \<longrightarrow> keep < int (length G) \<longrightarrow>
             hd (global_candidates ft log_dir keep d) = p)) \<and>
     (plain_name mname \<longrightarrow> list_all (readable d) S \<longrightarrow>
        purge_old_timestamped_logs mname log_dir keep d =
          (Inr (fst (remove_each (scoped_candidates mname log_dir keep d) [] d)),
           snd (remove_each (scoped_candidates mname log_dir keep d) [] d)) \<and>
        scoped_candidates mname log_dir keep d =
          (if int (length S) > keep then slice_to (sort_key M S) (- keep) else []) \<and>
        (\<forall>p\<in>set S. getmtime d p = Inr (M p)))"
proof -
  have log: "suffix ''.log'' (basename p)" if "p \<in> set G" for p
    using glob_member_matches[OF wf that[unfolded G_def]] log_pattern_suffix[of "basename p" "[]"]
    by blast
  have a: "purge_old_logs_global ft log_dir keep d = remove_each (global_candidates ft log_dir keep d) [] d"
    by (rule purge_old_logs_global_loop)
  have b: "global_candidates ft log_dir keep d = take (nat (int (length G) - keep)) (sort_key K G)"
    unfolding G_def K_def by (rule global_candidates_take)
  have c1: "K p = whole_second dt"
    if "valid_datetime dt" "basename p = stem @ ''_'' @ strftime dt @ ''.log''" for p stem dt
    unfolding K_def sort_key_of_def parse_name[OF that] by simp
  have c2: "(\<forall>m. getmtime d p = Inr m \<longrightarrow> valid_datetime (ft m) \<longrightarrow> K p = ft m) \<and>
            (\<forall>m. getmtime d p = Inr m \<longrightarrow> \<not> valid_datetime (ft m) \<longrightarrow> K p = ft 0) \<and>
            (\<forall>e. getmtime d p = Inl e \<longrightarrow> K p = ft 0)"
    if "p \<in> set G" "\<not> carries_timestamp (basename p)" for p
  proof -
    from that have "parse_timestamp_from_filename p = None"
      by (simp add: parse_None_iff[OF log])
    then show ?thesis by (simp add: K_def sort_key_of_def fromtimestamp_def)
  qed
  have e: "hd (global_candidates ft log_dir keep d) = p"
    if p: "p \<in> set G" and nt: "\<not> carries_timestamp (basename p)" and nc: "\<not> convertible ft d p"
      and first: "\<forall>q\<in>set G. q \<noteq> p \<longrightarrow> ft 0 < K q" and surplus: "keep < int (length G)" for p
  proof -
    have kp: "K p = ft 0"
      using c2[OF p nt] nc by (cases "getmtime d p") (auto simp add: convertible_def)
    have "hd (sort_key K G) = p"
      by (rule hd_sort_key_least[OF p]) (use first kp in auto)
    moreover from surplus have "0 < nat (int (length G) - keep)" by simp
    ultimately show ?thesis unfolding b by (simp add: hd_take)
  qed
  have f: "purge_old_timestamped_logs mname log_dir keep d =
          (Inr (fst (remove_each (scoped_candidates mname log_dir keep d) [] d)),
           snd (remove_each (scoped_candidates mname log_dir keep d) [] d)) \<and>
        scoped_candidates mname log_dir keep d =
          (if int (length S) > keep then slice_to (sort_key M S) (- keep) else []) \<and>
        (\<forall>p\<in>set S. getmtime d p = Inr (M p))" if rd: "list_all (readable d) S"
  proof -
    have "getmtime d p = Inr (M p)" if "p \<in> set S" for p
      using rd that unfolding M_def
      by (cases "getmtime d p") (auto simp add: list_all_iff readable_def the_mtime_def)
    moreover have "scoped_candidates mname log_dir keep d =
          (if int (length S) > keep then slice_to (sort_key M S) (- keep) else [])"
      by (simp add: scoped_candidates_def S_def M_def Let_def)
    ultimately show ?thesis
      using purge_old_timestamped_logs_loop[OF rd[unfolded S_def], of keep] by blast
  qed
  from a b c1 c2 e f show ?thesis by blast
qed

theorem retention_ordering_key_witness:
  "wf_dir key_dir \<and> plain_dir ''logs'' \<and> ascii_names key_dir \<and> valid_datetime (utc_1970 0) \<and>
   plain_name ''svc'' \<and>
   glob_glob key_dir ''logs'' ''*.log'' =
     [''logs/svc_2024-01-02_00-00-00.log'', ''logs/plain.log'', ''logs/broken.log''] \<and>
   valid_datetime (2024, 1, 2, 0, 0, 0, 0) \<and>
   basename ''logs/svc_2024-01-02_00-00-00.log'' = ''svc'' @ ''_'' @ strftime (2024, 1, 2, 0, 0, 0, 0) @ ''.log'' \<and>
   sort_key_of utc_1970 key_dir ''logs/svc_2024-01-02_00-00-00.log'' = (2024, 1, 2, 0, 0, 0, 0) \<and>
   \<not> carries_timestamp (basename ''logs/plain.log'') \<and>
   getmtime key_dir ''logs/plain.log'' = Inr 30 \<and> valid_datetime (utc_1970 30) \<and>
   sort_key_of utc_1970 key_dir ''logs/plain.log'' = utc_1970 30 \<and>
   \<not> carries_timestamp (basename ''logs/broken.log'') \<and>
   \<not> readable key_dir ''logs/broken.log'' \<and> \<not> convertible utc_1970 key_dir ''logs/broken.log'' \<and>
   sort_key_of utc_1970 key_dir ''logs/broken.log'' = utc_1970 0 \<and>
   global_candidates utc_1970 ''logs'' 1 key_dir = [''logs/broken.log'', ''logs/plain.log''] \<and>
   hd (global_candidates utc_1970 ''logs'' 1 key_dir) = ''logs/broken.log'' \<and>
   list_all (readable key_dir) (glob_glob key_dir ''logs'' (''svc'' @ ''_*.log'')) \<and>
   scoped_candidates ''svc'' ''logs'' 0 key_dir = [] \<and>
   getmtime key_dir ''logs/svc_2024-01-02_00-00-00.log'' = Inr (the_mtime key_dir ''logs/svc_2024-01-02_00-00-00.log'') \<and>
   wf_dir far_dir \<and> ascii_names far_dir \<and>
   glob_glob far_dir ''logs'' ''*.log'' = [''logs/plain.log'', ''logs/far.log''] \<and>
   \<not> carries_timestamp (basename ''logs/far.log'') \<and>
   getmtime far_dir ''logs/far.log'' = Inr 1000000000000 \<and>
   \<not> valid_datetime (utc_1970 1000000000000) \<and>
   sort_key_of utc_1970 far_dir ''logs/far.log'' = utc_1970 0 \<and>
   hd (global_candidates utc_1970 ''logs'' 1 far_dir) = ''logs/far.log''"
proof -
  have h: "wf_dir key_dir" "wf_dir far_dir"
    by (simp_all add: key_dir_def far_dir_def dir_eval)
  have sc: "ascii_names key_dir" "ascii_names far_dir"
    by (simp_all add: key_dir_def far_dir_def scope_eval)
  have g: "glob_glob key_dir ''logs'' ''*.log'' =
     [''logs/svc_2024-01-02_00-00-00.log'', ''logs/plain.log'', ''logs/broken.log'']"
    by (simp add: key_dir_def dir_eval)
  have gf: "glob_glob far_dir ''logs'' ''*.log'' = [''logs/plain.log'', ''logs/far.log'']"
    by (simp add: far_dir_def dir_eval)
  have v: "valid_datetime (2024, 1, 2, 0, 0, 0, 0)" "valid_datetime (utc_1970 30)"
    "\<not> valid_datetime (utc_1970 1000000000000)"
    by (simp_all add: valid_datetime_def days_in_month_def utc_1970_def)
  have n: "basename ''logs/svc_2024-01-02_00-00-00.log'' =
      ''svc'' @ ''_'' @ strftime (2024, 1, 2, 0, 0, 0, 0) @ ''.log''"
    by (simp add: basename_def strftime_def pad2_def pad4_def digit_char_def digits_def)
  have un: "parse_timestamp_from_filename ''logs/plain.log'' = None"
    "parse_timestamp_from_filename ''logs/broken.log'' = None"
    "parse_timestamp_from_filename ''logs/far.log'' = None"
    by (simp_all add: parse_eval)
  have sfx: "suffix ''.log'' (basename ''logs/plain.log'')" "suffix ''.log'' (basename ''logs/broken.log'')"
    "suffix ''.log'' (basename ''logs/far.log'')"
    by (simp_all add: basename_def suffix_def)
  have nc: "\<not> carries_timestamp (basename ''logs/plain.log'')"
    "\<not> carries_timestamp (basename ''logs/broken.log'')"
    "\<not> carries_timestamp (basename ''logs/far.log'')"
    using un parse_None_iff[OF sfx(1)] parse_None_iff[OF sfx(2)] parse_None_iff[OF sfx(3)] by simp_all
  have m: "getmtime key_dir ''logs/plain.log'' = Inr 30" "\<not> readable key_dir ''logs/broken.log''"
    "list_all (readable key_dir) (glob_glob key_dir ''logs'' (''svc'' @ ''_*.log''))"
    "getmtime far_dir ''logs/far.log'' = Inr 1000000000000"
    "getmtime far_dir ''logs/plain.log'' = Inr 30"
    by (simp_all add: key_dir_def far_dir_def dir_eval basename_def)
  have cv: "\<not> convertible utc_1970 key_dir ''logs/broken.log''"
    "\<not> convertible utc_1970 far_dir ''logs/far.log''"
    using m(2) v(3) by (simp_all add: convertible_def readable_def m(4) split: sum.splits)
  have s: "scoped_candidates ''svc'' ''logs'' 0 key_dir = []"
    by (simp add: scoped_candidates_def key_dir_def dir_eval basename_def)
  have t: "getmtime key_dir ''logs/svc_2024-01-02_00-00-00.log'' =
      Inr (the_mtime key_dir ''logs/svc_2024-01-02_00-00-00.log'')"
    by (simp add: key_dir_def dir_eval basename_def)
  note T = retention_ordering_key[OF h(1) example_scope(2), where ft = utc_1970 and keep = 1
      and mname = "''svc''", THEN conjunct1, rule_format, OF sc(1) example_scope(3)]
  note keys = T[THEN conjunct2, THEN conjunct2, THEN conjunct1, unfolded g]
  note first = T[THEN conjunct2, THEN conjunct2, THEN conjunct2, unfolded g]
  have k1: "sort_key_of utc_1970 key_dir ''logs/svc_2024-01-02_00-00-00.log'' = (2024, 1, 2, 0, 0, 0, 0)"
    using keys[THEN bspec, of "''logs/svc_2024-01-02_00-00-00.log''", THEN conjunct1, rule_format, OF _ v(1) n]
    by (simp add: whole_second_def)
  have k2: "sort_key_of utc_1970 key_dir ''logs/plain.log'' = utc_1970 30"
    using keys[THEN bspec, of "''logs/plain.log''", THEN conjunct2, rule_format, OF _ nc(1),
        THEN conjunct1, rule_format, OF _ m(1) v(2)]
    by simp
  from m(2) obtain e where e: "getmtime key_dir ''logs/broken.log'' = Inl e"
    by (cases "getmtime key_dir ''logs/broken.log''") (simp_all add: readable_def)
  have k3: "sort_key_of utc_1970 key_dir ''logs/broken.log'' = utc_1970 0"
    using keys[THEN bspec, of "''logs/broken.log''", THEN conjunct2, rule_format, OF _ nc(2),
        THEN conjunct2, THEN conjunct2, rule_format, OF _ e]
    by simp
  have later: "\<forall>q\<in>set [''logs/svc_2024-01-02_00-00-00.log'', ''logs/plain.log'', ''logs/broken.log''].
      q \<noteq> ''logs/broken.log'' \<longrightarrow> utc_1970 0 < sort_key_of utc_1970 key_dir q"
    by (simp add: k1 k2 utc_1970_def)
  have hdc: "hd (global_candidates utc_1970 ''logs'' 1 key_dir) = ''logs/broken.log''"
    using first[THEN bspec, of "''logs/broken.log''", rule_format, OF _ nc(2) cv(1)] later
    by simp
  have c: "global_candidates utc_1970 ''logs'' 1 key_dir = [''logs/broken.log'', ''logs/plain.log'']"
    by (simp add: global_candidates_def g k1 k2 k3 utc_1970_def slice_to_def)
  note F = retention_ordering_key[OF h(2) example_scope(2), where ft = utc_1970 and keep = 1
      and mname = "''svc''", THEN conjunct1, rule_format, OF sc(2) example_scope(3)]
  note fkeys = F[THEN conjunct2, THEN conjunct2, THEN conjunct1, unfolded gf]
  note ffirst = F[THEN conjunct2, THEN conjunct2, THEN conjunct2, unfolded gf]
  have f1: "sort_key_of utc_1970 far_dir ''logs/far.log'' = utc_1970 0"
    using fkeys[THEN bspec, of "''logs/far.log''", THEN conjunct2, rule_format, OF _ nc(3),
        THEN conjunct2, THEN conjunct1, rule_format, OF _ m(4) v(3)]
    by simp
  have f2: "sort_key_of utc_1970 far_dir ''logs/plain.log'' = utc_1970 30"
    using fkeys[THEN bspec, of "''logs/plain.log''", THEN conjunct2, rule_format, OF _ nc(1),
        THEN conjunct1, rule_format, OF _ m(5) v(2)]
    by simp
  have flater: "\<forall>q\<in>set [''logs/plain.log'', ''logs/far.log''].
      q \<noteq> ''logs/far.log'' \<longrightarrow> utc_1970 0 < sort_key_of utc_1970 far_dir q"
    by (simp add: f2 utc_1970_def)
  have fhd: "hd (global_candidates utc_1970 ''logs'' 1 far_dir) = ''logs/far.log''"
    using ffirst[THEN bspec, of "''logs/far.log''", rule_format, OF _ nc(3) cv(2)] flater
    by simp
  from h sc g gf v n k1 k2 k3 nc m cv c hdc s t f1 fhd example_scope show ?thesis by simp
qed

text \<open>
  C2 as stated fails in two places. The scoped pass does not look at the timestamp in the
  name: of two files it deletes the one with the later date in its name, because its
  modification time is the earlier one. And in the global pass a file with an unreadable
  modification time is not always the first candidate: a file whose name carries a date
  before 1970 sorts before it and is deleted in its place.
\<close>

theorem ordering_key_differs_from_claim:
  "parsed ''logs/svc_2024-02-01_00-00-00.log'' < parsed ''logs/svc_2024-03-01_00-00-00.log'' \<and>
   fst (purge_old_timestamped_logs ''svc'' ''logs'' 1 renamed_dir) =
     Inr [''logs/svc_2024-03-01_00-00-00.log''] \<and>
   \<not> readable old_name_dir ''logs/broken.log'' \<and>
   sort_key_of utc_1970 old_name_dir ''logs/broken.log'' = utc_1970 0 \<and>
   purge_old_logs_global utc_1970 ''logs'' 1 old_name_dir =
     ([''logs/old_1960-01-01_00-00-00.log''],
      present [\<lparr>fname = ''broken.log'', mtime = None, removable = True\<rparr>])"
  by (simp add: renamed_dir_def old_name_dir_def pass_eval prop_eval)

subsection \<open>The session file in the retention pass of its own call\<close>





























end
